theory Spec2Isabelle
  imports Main "HOL-Library.Word"
begin

unbundle bit_operations_syntax

section \<open>hash.js: SHA-256, base64 and the short hash\<close>

text \<open>
  \<open>sha256Hash\<close> calls Node's \<open>createHash('sha256')\<close> and \<open>Buffer.toString('base64')\<close>.
  Both are written out here: the digest after FIPS 180-4 on 32-bit words, the encoding after
  RFC 4648.  A JavaScript string is given by its UTF-8 bytes, one \<open>char\<close> per byte, which
  is what \<open>update(str)\<close> hashes.
\<close>

type_synonym u32 = "32 word"
type_synonym byte = "8 word"

text \<open>
  SHA-256: the six logical functions, the 64 round constants and the initial hash value.
\<close>

definition rotr :: "nat \<Rightarrow> u32 \<Rightarrow> u32" where
  "rotr n x = drop_bit n x OR push_bit (32 - n) x"

definition Ch :: "u32 \<Rightarrow> u32 \<Rightarrow> u32 \<Rightarrow> u32" where
  "Ch x y z = (x AND y) XOR (NOT x AND z)"

definition Maj :: "u32 \<Rightarrow> u32 \<Rightarrow> u32 \<Rightarrow> u32" where
  "Maj x y z = (x AND y) XOR (x AND z) XOR (y AND z)"

definition bsig0 :: "u32 \<Rightarrow> u32" where
  "bsig0 x = rotr 2 x XOR rotr 13 x XOR rotr 22 x"

definition bsig1 :: "u32 \<Rightarrow> u32" where
  "bsig1 x = rotr 6 x XOR rotr 11 x XOR rotr 25 x"

definition ssig0 :: "u32 \<Rightarrow> u32" where
  "ssig0 x = rotr 7 x XOR rotr 18 x XOR drop_bit 3 x"

definition ssig1 :: "u32 \<Rightarrow> u32" where
  "ssig1 x = rotr 17 x XOR rotr 19 x XOR drop_bit 10 x"

definition K256 :: "u32 list" where
  "K256 = [
    0x428A2F98, 0x71374491, 0xB5C0FBCF, 0xE9B5DBA5, 0x3956C25B, 0x59F111F1, 0x923F82A4, 0xAB1C5ED5,
    0xD807AA98, 0x12835B01, 0x243185BE, 0x550C7DC3, 0x72BE5D74, 0x80DEB1FE, 0x9BDC06A7, 0xC19BF174,
    0xE49B69C1, 0xEFBE4786, 0x0FC19DC6, 0x240CA1CC, 0x2DE92C6F, 0x4A7484AA, 0x5CB0A9DC, 0x76F988DA,
    0x983E5152, 0xA831C66D, 0xB00327C8, 0xBF597FC7, 0xC6E00BF3, 0xD5A79147, 0x06CA6351, 0x14292967,
    0x27B70A85, 0x2E1B2138, 0x4D2C6DFC, 0x53380D13, 0x650A7354, 0x766A0ABB, 0x81C2C92E, 0x92722C85,
    0xA2BFE8A1, 0xA81A664B, 0xC24B8B70, 0xC76C51A3, 0xD192E819, 0xD6990624, 0xF40E3585, 0x106AA070,
    0x19A4C116, 0x1E376C08, 0x2748774C, 0x34B0BCB5, 0x391C0CB3, 0x4ED8AA4A, 0x5B9CCA4F, 0x682E6FF3,
    0x748F82EE, 0x78A5636F, 0x84C87814, 0x8CC70208, 0x90BEFFFA, 0xA4506CEB, 0xBEF9A3F7, 0xC67178F2]"

definition H256 :: "u32 list" where
  "H256 = [0x6A09E667, 0xBB67AE85, 0x3C6EF372, 0xA54FF53A,
           0x510E527F, 0x9B05688C, 0x1F83D9AB, 0x5BE0CD19]"

text \<open>
  Padding to a multiple of 64 bytes (a 1 bit, zeros, the length in bits on 8 bytes), the
  message schedule kept as a window of 16 words, the 64 rounds of one block, and the digest
  as 32 bytes.
\<close>

definition be32 :: "u32 \<Rightarrow> byte list" where
  "be32 w = [ucast (drop_bit 24 w), ucast (drop_bit 16 w), ucast (drop_bit 8 w), ucast w]"

definition be64 :: "nat \<Rightarrow> byte list" where
  "be64 n = [word_of_nat (n div 2 ^ 56), word_of_nat (n div 2 ^ 48), word_of_nat (n div 2 ^ 40),
             word_of_nat (n div 2 ^ 32), word_of_nat (n div 2 ^ 24), word_of_nat (n div 2 ^ 16),
             word_of_nat (n div 2 ^ 8), word_of_nat n]"

definition pad :: "byte list \<Rightarrow> byte list" where
  "pad m = m @ [0x80] @ replicate ((119 - length m mod 64) mod 64) 0 @ be64 (8 * length m)"

fun be_words :: "byte list \<Rightarrow> u32 list" where
  "be_words (a # b # c # d # bs) =
     (push_bit 24 (ucast a) OR push_bit 16 (ucast b) OR push_bit 8 (ucast c) OR ucast d) # be_words bs"
| "be_words bs = []"

fun next_w :: "u32 list \<Rightarrow> u32 list" where
  "next_w (w0 # w1 # ws) = w1 # ws @ [ssig1 (ws ! 12) + ws ! 7 + ssig0 w1 + w0]"
| "next_w ws = ws"

fun round256 :: "u32 \<Rightarrow> u32 \<Rightarrow> u32 list \<Rightarrow> u32 list" where
  "round256 k w [a, b, c, d, e, f, g, h] =
     (let t1 = h + bsig1 e + Ch e f g + k + w;
          t2 = bsig0 a + Maj a b c
      in [t1 + t2, a, b, c, d + t1, e, f, g])"
| "round256 k w s = s"

fun rounds :: "u32 list \<Rightarrow> u32 list \<Rightarrow> u32 list \<Rightarrow> u32 list" where
  "rounds [] w s = s"
| "rounds (k # ks) w s = rounds ks (next_w w) (round256 k (hd w) s)"

definition compress :: "u32 list \<Rightarrow> u32 list \<Rightarrow> u32 list" where
  "compress h blk = map2 (+) h (rounds K256 blk h)"

fun blocks :: "u32 list \<Rightarrow> u32 list \<Rightarrow> u32 list" where
  "blocks h (w0 # w1 # w2 # w3 # w4 # w5 # w6 # w7 # w8 # w9 # w10 # w11 # w12 # w13 # w14 # w15 # ws) =
     blocks (compress h [w0, w1, w2, w3, w4, w5, w6, w7, w8, w9, w10, w11, w12, w13, w14, w15]) ws"
| "blocks h ws = h"

definition sha256 :: "byte list \<Rightarrow> byte list" where
  "sha256 m = concat (map be32 (blocks H256 (be_words (pad m))))"

definition utf8 :: "string \<Rightarrow> byte list" where
  "utf8 s = map of_char s"

text \<open>
  \<open>Buffer.toString('base64')\<close>: three bytes give four characters, the last group is
  padded with \<open>=\<close>.
\<close>

definition b64chars :: string where
  "b64chars = ''ABCDEFGHIJKLMNOPQRSTUVWXYZabcdefghijklmnopqrstuvwxyz0123456789+/''"

definition b64 :: "nat \<Rightarrow> char" where
  "b64 i = b64chars ! i"

fun base64 :: "byte list \<Rightarrow> string" where
  "base64 (a # b # c # bs) =
     [b64 (unat a div 4), b64 (unat a mod 4 * 16 + unat b div 16),
      b64 (unat b mod 16 * 4 + unat c div 64), b64 (unat c mod 64)] @ base64 bs"
| "base64 [a, b] =
     [b64 (unat a div 4), b64 (unat a mod 4 * 16 + unat b div 16), b64 (unat b mod 16 * 4), CHR ''='']"
| "base64 [a] = [b64 (unat a div 4), b64 (unat a mod 4 * 16), CHR ''='', CHR ''='']"
| "base64 [] = []"

text \<open>
  hash.js, \<open>sha256Hash(str)\<close> without the \<open>binary\<close> flag: the digest in base64.
\<close>

definition sha256Hash :: "string \<Rightarrow> string" where
  "sha256Hash str = base64 (sha256 (utf8 str))"

text \<open>
  hash.js, \<open>shortHash(str, len)\<close>: the digest as a buffer, \<open>buffer[0] &= 127\<close>, then
  \<open>.toString('base64').slice(0, len).replace(/=+$/, '').replace(/\+/g, '_').replace(/\//g, '$')\<close>.
  \<open>slice0 s len\<close> is \<open>s.slice(0, len)\<close> for an integer \<open>len\<close>, counted from the end
  when negative.
\<close>

definition slice0 :: "string \<Rightarrow> int \<Rightarrow> string" where
  "slice0 s len = (if len < 0 then take (length s - nat (- len)) s else take (nat len) s)"

definition strip_eq :: "string \<Rightarrow> string" where
  "strip_eq s = rev (dropWhile (\<lambda>c. c = CHR ''='') (rev s))"

definition replace_all :: "char \<Rightarrow> char \<Rightarrow> string \<Rightarrow> string" where
  "replace_all x y s = map (\<lambda>c. if c = x then y else c) s"

definition clear_top_bit :: "byte list \<Rightarrow> byte list" where
  "clear_top_bit buffer = (case buffer of [] \<Rightarrow> [] | b # bs \<Rightarrow> (b AND 127) # bs)"

definition shortHash :: "string \<Rightarrow> int \<Rightarrow> string" where
  "shortHash str len =
     replace_all (CHR ''/'') (CHR ''$'')
       (replace_all (CHR ''+'') (CHR ''_'')
         (strip_eq (slice0 (base64 (clear_top_bit (sha256 (utf8 str)))) len)))"

text \<open>The characters of an identifier, and the digits among them.\<close>

definition ident_chars :: "char set" where
  "ident_chars = set ''ABCDEFGHIJKLMNOPQRSTUVWXYZabcdefghijklmnopqrstuvwxyz0123456789_$''"

definition digit_chars :: "char set" where
  "digit_chars = set ''0123456789''"

section \<open>JavaScript values, the platform and package.js\<close>

text \<open>
  Option values are JavaScript values: numbers are the integers, \<open>NaN\<close>, and any other
  number given by its rendering; a plain object is known by its address; \<open>JFun\<close> is one of
  the two functions \<open>conformOptions\<close> stores under \<open>invariant\<close>.  An error thrown is a value
  of \<open>error\<close>; \<open>InvariantFailed\<close> carries the message handed to tiny-invariant.

  The file system, \<open>JSON.parse\<close> and the \<open>path\<close> module are the platform, record
  \<open>node\<close>: \<open>readFileSync\<close> gives the text or the error code, \<open>JSON_parse\<close> gives
  \<open>None\<close> for a SyntaxError and otherwise what the code can see of the value (null, an
  object with its properties, anything else).

  A session is Babel's \<open>file\<close>: its filename and code, the slot of the private symbol
  \<open>ID_STRING\<close> (field \<open>id_string\<close>) and the counter slots, keyed by the counterKey
  value.  Only \<open>createId\<close> writes these slots, so the first holds a string and the others
  hold the counts it stored.  A count is a double with an integer value; \<open>js_succ\<close> is
  \<open>count + 1\<close> on doubles: exact below \<open>2^53\<close>, and rounded to the nearest double
  (ties to even) from there on, so that \<open>2^53 + 1\<close> is \<open>2^53\<close>.
\<close>

datatype error = InvariantFailed string | TypeError string | SyntaxError | FsError string

datatype jsnum = Integer int | NaN | NonInteger string

datatype symbol = ID_COUNTER | UserSymbol nat

datatype invariant_fn = TinyInvariant | Prefixed string

datatype jsval = JUndefined | JNull | JBool bool | JNum jsnum | JStr string | JSym symbol
  | JObj nat | JFun invariant_fn

type_synonym obj = "string \<Rightarrow> jsval"

type_synonym heap = "obj list"

datatype json = JsonNull | JsonObject obj | JsonOther

record packageProps =
  props_name :: jsval
  props_version :: jsval
  props_path :: string
  props_pkgPath :: string

record node =
  readFileSync :: "string \<Rightarrow> string + string"
  JSON_parse :: "string \<Rightarrow> json option"
  dirname :: "string \<Rightarrow> string"
  pathJoin :: "string \<Rightarrow> string \<Rightarrow> string"
  pathRelative :: "string \<Rightarrow> string \<Rightarrow> string"
  pathSeparator :: char

record session =
  filename :: "string option"
  code :: string
  id_string :: "string option"
  counters :: "jsval \<Rightarrow> nat option"

text \<open>
  \<open>count + 1\<close> on a number that holds a non-negative integer.  The sum is exact below
  \<open>2^53\<close>; from there on it is rounded to the nearest double, ties to the even one, so
  that \<open>2^53 + 1\<close> is \<open>2^53\<close> again and a counter that got there stays there.
\<close>

definition js_succ :: "nat \<Rightarrow> nat" where
  "js_succ count =
     (if count < 2 ^ 53 then count + 1
      else if count < 2 ^ 54 \<and> odd (count div 2) then count + 2
      else count)"

text \<open>
  What \<open>!v\<close>, \<open>v || d\<close> and \<open>if (v)\<close> test.
\<close>

fun truthy :: "jsval \<Rightarrow> bool" where
  "truthy JUndefined = False"
| "truthy JNull = False"
| "truthy (JBool b) = b"
| "truthy (JNum (Integer n)) = (n \<noteq> 0)"
| "truthy (JNum NaN) = False"
| "truthy (JNum (NonInteger s)) = True"
| "truthy (JStr s) = (s \<noteq> [])"
| "truthy (JSym s) = True"
| "truthy (JObj a) = True"
| "truthy (JFun f) = True"

text \<open>
  What a template literal makes of a value.  An integer is written in decimal (as
  JavaScript does below \<open>10^21\<close>); a Symbol cannot be converted and throws.  The text of a
  function is never asked for by the module; \<open>function\<close> stands for it.
\<close>

definition digit :: "nat \<Rightarrow> char" where
  "digit d = ''0123456789'' ! d"

fun decimal :: "nat \<Rightarrow> string" where
  "decimal n = (if n < 10 then [digit n] else decimal (n div 10) @ [digit (n mod 10)])"

declare decimal.simps [simp del]

definition render_int :: "int \<Rightarrow> string" where
  "render_int i = (if i < 0 then CHR ''-'' # decimal (nat (- i)) else decimal (nat i))"

fun toString :: "jsval \<Rightarrow> error + string" where
  "toString JUndefined = Inr ''undefined''"
| "toString JNull = Inr ''null''"
| "toString (JBool b) = Inr (if b then ''true'' else ''false'')"
| "toString (JNum (Integer n)) = Inr (render_int n)"
| "toString (JNum NaN) = Inr ''NaN''"
| "toString (JNum (NonInteger s)) = Inr s"
| "toString (JStr s) = Inr s"
| "toString (JSym s) = Inl (TypeError ''Cannot convert a Symbol value to a string'')"
| "toString (JObj a) = Inr ''[object Object]''"
| "toString (JFun f) = Inr ''function''"

text \<open>The tests taken from is-it-type.\<close>

fun isString :: "jsval \<Rightarrow> bool" where
  "isString (JStr s) = True"
| "isString v = False"

fun isFullString :: "jsval \<Rightarrow> bool" where
  "isFullString (JStr s) = (s \<noteq> [])"
| "isFullString v = False"

fun isBoolean :: "jsval \<Rightarrow> bool" where
  "isBoolean (JBool b) = True"
| "isBoolean v = False"

fun isPositiveInteger :: "jsval \<Rightarrow> bool" where
  "isPositiveInteger (JNum (Integer n)) = (0 < n)"
| "isPositiveInteger v = False"

fun isSymbol :: "jsval \<Rightarrow> bool" where
  "isSymbol (JSym s) = True"
| "isSymbol v = False"

text \<open>
  \<open>tinyInvariant(condition, message)\<close> throws unless the condition holds.  The function
  \<open>invariant\<close> of index.js is either tiny-invariant itself or the closure that puts the
  plugin name before the message (index.js, \<open>conformOptions\<close>, the lines after
  \<open>Create invariant function\<close>).  \<open>invariant_got inv c text v\<close> is the call
  \<open>inv(c, `text${v}`)\<close>: the message is built first.
\<close>

definition tinyInvariant :: "bool \<Rightarrow> string \<Rightarrow> error option" where
  "tinyInvariant condition message = (if condition then None else Some (InvariantFailed message))"

fun call_invariant :: "invariant_fn \<Rightarrow> bool \<Rightarrow> string \<Rightarrow> error option" where
  "call_invariant TinyInvariant condition msg = tinyInvariant condition msg"
| "call_invariant (Prefixed pluginName) condition msg =
     tinyInvariant condition (pluginName @ '': '' @ msg)"

definition invariant_got :: "invariant_fn \<Rightarrow> bool \<Rightarrow> string \<Rightarrow> jsval \<Rightarrow> error option" where
  "invariant_got invariant condition text v =
     (case toString v of
        Inl e \<Rightarrow> Some e
      | Inr s \<Rightarrow> call_invariant invariant condition (text @ s))"

text \<open>
  package.js, \<open>readPackageJson(path)\<close>: a read that fails with ENOENT gives undefined,
  any other failure is thrown again; \<open>JSON.parse\<close> may throw; destructuring \<open>null\<close>
  throws; without a truthy \<open>name\<close> the result is undefined.
\<close>

definition readPackageJson :: "node \<Rightarrow> string \<Rightarrow> error + packageProps option" where
  "readPackageJson env path =
     (let pkgPath = pathJoin env path ''package.json''
      in case readFileSync env pkgPath of
           Inl errcode \<Rightarrow> if errcode \<noteq> ''ENOENT'' then Inl (FsError errcode) else Inr None
         | Inr pkgStr \<Rightarrow>
             (case JSON_parse env pkgStr of
                None \<Rightarrow> Inl SyntaxError
              | Some JsonNull \<Rightarrow> Inl (TypeError ''Cannot destructure property of null'')
              | Some JsonOther \<Rightarrow> Inr None
              | Some (JsonObject pkgObj) \<Rightarrow>
                  if \<not> truthy (pkgObj ''name'') then Inr None
                  else Inr (Some \<lparr>props_name = pkgObj ''name'', props_version = pkgObj ''version'',
                                  props_path = path, props_pkgPath = pkgPath\<rparr>)))"

text \<open>
  package.js, \<open>findPackageRoot(path)\<close>: the \<open>while (true)\<close> loop over the parents.  It
  ends only if some directory is its own parent, which is up to \<open>dirname\<close>; a walk that
  does not end has the value \<open>None\<close>.
\<close>

partial_function (option) findPackageRoot :: "node \<Rightarrow> string \<Rightarrow> (error + packageProps option) option" where
  "findPackageRoot env path =
     (let parentPath = dirname env path
      in if parentPath = path then Some (Inr None)
         else case readPackageJson env parentPath of
                Inl e \<Rightarrow> Some (Inl e)
              | Inr (Some props) \<Rightarrow> Some (Inr (Some props))
              | Inr None \<Rightarrow> findPackageRoot env parentPath)"

section \<open>index.js: conformOptions, getIdStrFromPath and createId\<close>

text \<open>
  Objects live in a store, a list indexed by address, so that the copy made by
  \<open>{...options}\<close> and the caller's object are two objects.  \<open>conformOptions\<close> is the
  source's statements in order, one stage per block; each stage returns the store and the
  error thrown, if any.  A template literal \<open>`... ${v}`\<close> is built before the call it is
  an argument of, and building it throws for a Symbol: \<open>invariant_got\<close>.
\<close>

definition DEFAULT_ID_LEN :: int where
  "DEFAULT_ID_LEN = 8"

text \<open>
  Reading and writing a property of the object at an address; \<open>spread\<close> is what
  \<open>{...options}\<close> copies, nothing when \<open>options\<close> is undefined.
\<close>

definition get_prop :: "heap \<Rightarrow> nat \<Rightarrow> string \<Rightarrow> jsval" where
  "get_prop h a k = (h ! a) k"

definition set_prop :: "heap \<Rightarrow> nat \<Rightarrow> string \<Rightarrow> jsval \<Rightarrow> heap" where
  "set_prop h a k v = h[a := (h ! a)(k := v)]"

definition spread :: "heap \<Rightarrow> nat option \<Rightarrow> obj" where
  "spread h options =
     (case options of
        None \<Rightarrow> (\<lambda>k. JUndefined)
      | Some r \<Rightarrow> if r < length h then h ! r else (\<lambda>k. JUndefined))"

definition null_to_undefined :: "obj \<Rightarrow> obj" where
  "null_to_undefined ob = (\<lambda>k. if ob k = JNull then JUndefined else ob k)"

text \<open>
  index.js, \<open>conformOptions(options)\<close>.  The stages are, in the order of the source:
  the check of \<open>pluginName\<close> and the making of \<open>options.invariant\<close>; the three string
  options; the trailing separator of \<open>rootPath\<close>; \<open>isPackage\<close>; the pairing of
  \<open>packageName\<close> and \<open>packageVersion\<close>; \<open>idLength\<close>; \<open>counterKey\<close>.  After the
  first stage the function \<open>invariant\<close> is read back from the object it was stored in.
\<close>

definition make_invariant :: "jsval \<Rightarrow> invariant_fn" where
  "make_invariant pluginName =
     (case pluginName of
        JStr s \<Rightarrow> if s \<noteq> [] then Prefixed s else TinyInvariant
      | _ \<Rightarrow> TinyInvariant)"

definition invariant_of :: "obj \<Rightarrow> invariant_fn" where
  "invariant_of options = (case options ''invariant'' of JFun f \<Rightarrow> f | _ \<Rightarrow> TinyInvariant)"

type_synonym stage = "heap \<Rightarrow> nat \<Rightarrow> heap \<times> error option"

definition stage_pluginName :: stage where
  "stage_pluginName h a =
     (let pluginName = get_prop h a ''pluginName''
      in case invariant_got TinyInvariant (pluginName = JUndefined \<or> isFullString pluginName)
                ''options.pluginName must be non-empty string if provided - got '' pluginName of
           Some e \<Rightarrow> (h, Some e)
         | None \<Rightarrow> (set_prop h a ''invariant'' (JFun (make_invariant pluginName)), None))"

fun validate_strings :: "invariant_fn \<Rightarrow> heap \<Rightarrow> nat \<Rightarrow> string list \<Rightarrow> error option" where
  "validate_strings invariant h a [] = None"
| "validate_strings invariant h a (opt # opts) =
     (let v = get_prop h a opt
      in case invariant_got invariant (v = JUndefined \<or> isFullString v)
                (''options.'' @ opt @ '' must be a non-empty string if provided - got '') v of
           Some e \<Rightarrow> Some e
         | None \<Rightarrow> validate_strings invariant h a opts)"

definition stage_strings :: stage where
  "stage_strings h a =
     (h, validate_strings (invariant_of (h ! a)) h a [''rootPath'', ''packageName'', ''packageVersion''])"

definition stage_rootPath :: "char \<Rightarrow> stage" where
  "stage_rootPath sep h a =
     (case get_prop h a ''rootPath'' of
        JStr rootPath \<Rightarrow>
          if rootPath \<noteq> [] \<and> rootPath \<noteq> [sep] \<and> last rootPath = sep
          then (set_prop h a ''rootPath'' (JStr (butlast rootPath)), None)
          else (h, None)
      | _ \<Rightarrow> (h, None))"

definition stage_isPackage :: stage where
  "stage_isPackage h a =
     (let isPackage = get_prop h a ''isPackage''
      in if isPackage = JUndefined then (set_prop h a ''isPackage'' (JBool False), None)
         else (h, invariant_got (invariant_of (h ! a)) (isBoolean isPackage)
                    ''options.isPackage must be boolean if provided - got '' isPackage))"

definition stage_pairing :: stage where
  "stage_pairing h a =
     (h, call_invariant (invariant_of (h ! a))
           ((\<not> truthy (get_prop h a ''packageName'')) = (\<not> truthy (get_prop h a ''packageVersion'')))
           ''`packageName` and `packageVersion` options must either be both provided or both omitted'')"

definition stage_idLength :: stage where
  "stage_idLength h a =
     (let idLength = get_prop h a ''idLength''
      in if idLength = JUndefined then (set_prop h a ''idLength'' (JNum (Integer DEFAULT_ID_LEN)), None)
         else (h, invariant_got (invariant_of (h ! a)) (isPositiveInteger idLength)
                    ''options.idLength must be a positive integer if provided - got '' idLength))"

definition stage_counterKey :: stage where
  "stage_counterKey h a =
     (let counterKey = get_prop h a ''counterKey''
      in if counterKey = JUndefined then (set_prop h a ''counterKey'' (JSym ID_COUNTER), None)
         else (h, invariant_got (invariant_of (h ! a)) (isSymbol counterKey)
                    ''options.pluginName must be a Symbol if provided - got '' counterKey))"

fun run_stages :: "stage list \<Rightarrow> stage" where
  "run_stages [] h a = (h, None)"
| "run_stages (s # ss) h a =
     (case s h a of
        (h', Some e) \<Rightarrow> (h', Some e)
      | (h', None) \<Rightarrow> run_stages ss h' a)"

definition stages :: "node \<Rightarrow> stage list" where
  "stages env = [stage_pluginName, stage_strings, stage_rootPath (pathSeparator env),
                 stage_isPackage, stage_pairing, stage_idLength, stage_counterKey]"

definition conformOptions :: "node \<Rightarrow> heap \<Rightarrow> nat option \<Rightarrow> heap \<times> (error + nat)" where
  "conformOptions env h0 options =
     (let a = length h0;
          h1 = h0 @ [spread h0 options];
          h2 = h1[a := null_to_undefined (h1 ! a)]
      in case run_stages (stages env) h2 a of
           (h', Some e) \<Rightarrow> (h', Inl e)
         | (h', None) \<Rightarrow> (h', Inr a))"

text \<open>
  index.js, \<open>validatePackage(packageProps, invariant)\<close>; destructuring undefined throws.
\<close>

definition validatePackage :: "packageProps option \<Rightarrow> invariant_fn \<Rightarrow> error option" where
  "validatePackage packageProps invariant =
     (case packageProps of
        None \<Rightarrow> Some (TypeError ''Cannot destructure property of undefined'')
      | Some props \<Rightarrow>
          (case call_invariant invariant (truthy (props_version props))
                  (props_pkgPath props @ '' does not contain a version field'') of
             Some e \<Rightarrow> Some e
           | None \<Rightarrow>
          (case call_invariant invariant (isString (props_name props))
                  (props_pkgPath props @ '' contains non-string name field'') of
             Some e \<Rightarrow> Some e
           | None \<Rightarrow>
             call_invariant invariant (isString (props_version props))
               (props_pkgPath props @ '' contains non-string version field''))))"

text \<open>
  index.js, \<open>getIdStrFromPath(path, options, invariant)\<close>.  \<open>id_of\<close> is its last part,
  from \<open>pathRelative\<close> on.  In the branch of a given \<open>rootPath\<close> both the name and the
  version are taken from \<open>packageProps.name\<close>, as the source has it.
\<close>

definition posix_style :: "char \<Rightarrow> string \<Rightarrow> string" where
  "posix_style sep relativePath =
     (if sep = CHR 0x5C then replace_all (CHR 0x5C) (CHR ''/'') relativePath else relativePath)"

definition id_of :: "node \<Rightarrow> string \<Rightarrow> jsval \<Rightarrow> jsval \<Rightarrow> string \<Rightarrow> error + string option" where
  "id_of env rootPath packageName packageVersion filePath =
     (let relativePath = posix_style (pathSeparator env) (pathRelative env rootPath filePath)
      in if truthy packageName
         then (case toString packageName of
                 Inl e \<Rightarrow> Inl e
               | Inr n \<Rightarrow>
                   (case toString packageVersion of
                      Inl e \<Rightarrow> Inl e
                    | Inr v \<Rightarrow> Inr (Some (''package:'' @ n @ ''@'' @ v @ '':'' @ relativePath))))
         else Inr (Some (''path:'' @ relativePath)))"

definition getIdStrFromPath ::
  "node \<Rightarrow> string \<Rightarrow> obj \<Rightarrow> invariant_fn \<Rightarrow> (error + string option) option" where
  "getIdStrFromPath env filePath options invariant =
     (let isPackage = options ''isPackage'';
          rootPath = options ''rootPath'';
          packageName = options ''packageName'';
          packageVersion = options ''packageVersion''
      in if truthy rootPath
         then (case rootPath of
                 JStr root \<Rightarrow>
                   if truthy isPackage \<and> \<not> truthy packageName
                   then (case readPackageJson env root of
                           Inl e \<Rightarrow> Some (Inl e)
                         | Inr packageProps \<Rightarrow>
                             (case validatePackage packageProps invariant of
                                Some e \<Rightarrow> Some (Inl e)
                              | None \<Rightarrow>
                                  (case packageProps of
                                     None \<Rightarrow> Some (Inl (TypeError ''Cannot read property of undefined''))
                                   | Some props \<Rightarrow>
                                       Some (id_of env root (props_name props) (props_name props)
                                               filePath))))
                   else Some (id_of env root packageName packageVersion filePath)
               | _ \<Rightarrow> Some (Inl (TypeError ''ERR_INVALID_ARG_TYPE'')))
         else (case findPackageRoot env filePath of
                 None \<Rightarrow> None
               | Some (Inl e) \<Rightarrow> Some (Inl e)
               | Some (Inr None) \<Rightarrow> Some (Inr None)
               | Some (Inr (Some packageProps)) \<Rightarrow>
                   if truthy isPackage \<and> \<not> truthy packageName
                   then (case validatePackage (Some packageProps) invariant of
                           Some e \<Rightarrow> Some (Inl e)
                         | None \<Rightarrow>
                             Some (id_of env (props_path packageProps) (props_name packageProps)
                                     (props_version packageProps) filePath))
                   else Some (id_of env (props_path packageProps) packageName packageVersion
                                filePath)))"

text \<open>
  index.js, the exported function.  \<open>cached\<close> is \<open>file.get(ID_STRING)\<close> when truthy,
  \<open>get_count\<close> is \<open>file.get(counterKey) || 0\<close>, \<open>add_counter\<close> the last four
  statements.  The result is the token or the error thrown, with the store and the session
  as the call leaves them; \<open>None\<close> stands for a call that does not return.
\<close>

definition idLength_of :: "obj \<Rightarrow> int" where
  "idLength_of options = (case options ''idLength'' of JNum (Integer n) \<Rightarrow> n | _ \<Rightarrow> 0)"

definition cached :: "session \<Rightarrow> string option" where
  "cached file = (case id_string file of Some s \<Rightarrow> if s \<noteq> [] then Some s else None | None \<Rightarrow> None)"

definition get_count :: "session \<Rightarrow> jsval \<Rightarrow> nat" where
  "get_count file counterKey = (case counters file counterKey of None \<Rightarrow> 0 | Some c \<Rightarrow> c)"

definition add_counter :: "obj \<Rightarrow> string \<Rightarrow> session \<Rightarrow> string \<times> session" where
  "add_counter options idStr file =
     (let counterKey = options ''counterKey'';
          count = get_count file counterKey;
          file' = file\<lparr>counters := (counters file)(counterKey \<mapsto> js_succ count)\<rparr>
      in (shortHash (idStr @ '':'' @ decimal count) (idLength_of options), file'))"

definition createId ::
  "node \<Rightarrow> heap \<Rightarrow> session \<Rightarrow> nat option \<Rightarrow> ((error + string) \<times> heap \<times> session) option" where
  "createId env h file options =
     (case conformOptions env h options of
        (h', Inl e) \<Rightarrow> Some (Inl e, h', file)
      | (h', Inr a) \<Rightarrow>
          (let opts = h' ! a
           in case cached file of
                Some idStr \<Rightarrow>
                  (case add_counter opts idStr file of (token, file') \<Rightarrow> Some (Inr token, h', file'))
              | None \<Rightarrow>
                  (case (case filename file of
                           None \<Rightarrow> Some (Inr None)
                         | Some filePath \<Rightarrow>
                             if filePath \<noteq> []
                             then getIdStrFromPath env filePath opts (invariant_of opts)
                             else Some (Inr None)) of
                     None \<Rightarrow> None
                   | Some (Inl e) \<Rightarrow> Some (Inl e, h', file)
                   | Some (Inr found) \<Rightarrow>
                       (let idStr = (case found of
                                       Some s \<Rightarrow> if s \<noteq> [] then s else ''code:'' @ sha256Hash (code file)
                                     | None \<Rightarrow> ''code:'' @ sha256Hash (code file));
                            file1 = file\<lparr>id_string := Some idStr\<rparr>
                        in case add_counter opts idStr file1 of
                             (token, file') \<Rightarrow> Some (Inr token, h', file')))))"

section \<open>The older copy of index.js\<close>

text \<open>
  The source holds a second, older \<open>createId\<close> that checks nothing: it trims
  \<open>rootPath\<close>, takes the defaults with \<open>||\<close> and goes on.  It is given here on
  options of the types its documentation names, since nothing in it guards against others.
  It never writes to its options, so they are a value, not an object of the store.
\<close>

record legacy_options =
  rootPath_opt :: "string option"
  isPackage_opt :: bool
  packageName_opt :: "string option"
  packageVersion_opt :: "string option"
  idLength_opt :: "int option"
  pluginName_opt :: "string option"
  counterKey_opt :: jsval

definition no_legacy_options :: legacy_options where
  "no_legacy_options = \<lparr>rootPath_opt = None, isPackage_opt = False, packageName_opt = None,
     packageVersion_opt = None, idLength_opt = None, pluginName_opt = None,
     counterKey_opt = JUndefined\<rparr>"

definition js_string :: "string option \<Rightarrow> jsval" where
  "js_string v = (case v of None \<Rightarrow> JUndefined | Some s \<Rightarrow> JStr s)"

definition legacy_validatePackage :: "packageProps option \<Rightarrow> string \<Rightarrow> error option" where
  "legacy_validatePackage packageProps errorPrefix =
     (case packageProps of
        None \<Rightarrow> Some (TypeError ''Cannot destructure property of undefined'')
      | Some props \<Rightarrow>
          (case tinyInvariant (truthy (props_version props))
                  (errorPrefix @ props_pkgPath props @ '' does not contain a version field'') of
             Some e \<Rightarrow> Some e
           | None \<Rightarrow>
          (case tinyInvariant (isString (props_name props))
                  (errorPrefix @ props_pkgPath props @ '' contains non-string name field'') of
             Some e \<Rightarrow> Some e
           | None \<Rightarrow>
             tinyInvariant (isString (props_version props))
               (errorPrefix @ props_pkgPath props @ '' contains non-string version field''))))"

definition legacy_getIdStrFromPath ::
  "node \<Rightarrow> string \<Rightarrow> legacy_options \<Rightarrow> string \<Rightarrow> (error + string option) option" where
  "legacy_getIdStrFromPath env filePath options errorPrefix =
     (let isPackage = isPackage_opt options;
          packageName = js_string (packageName_opt options);
          packageVersion = js_string (packageVersion_opt options)
      in if truthy (js_string (rootPath_opt options))
         then (case rootPath_opt options of
                 Some root \<Rightarrow>
                   if isPackage \<and> \<not> truthy packageName
                   then (case readPackageJson env root of
                           Inl e \<Rightarrow> Some (Inl e)
                         | Inr packageProps \<Rightarrow>
                             (case legacy_validatePackage packageProps errorPrefix of
                                Some e \<Rightarrow> Some (Inl e)
                              | None \<Rightarrow>
                                  (case packageProps of
                                     None \<Rightarrow> Some (Inl (TypeError ''Cannot read property of undefined''))
                                   | Some props \<Rightarrow>
                                       Some (id_of env root (props_name props) (props_name props)
                                               filePath))))
                   else Some (id_of env root packageName packageVersion filePath)
               | None \<Rightarrow> Some (Inr None))
         else (case findPackageRoot env filePath of
                 None \<Rightarrow> None
               | Some (Inl e) \<Rightarrow> Some (Inl e)
               | Some (Inr None) \<Rightarrow> Some (Inr None)
               | Some (Inr (Some packageProps)) \<Rightarrow>
                   if isPackage \<and> \<not> truthy packageName
                   then (case legacy_validatePackage (Some packageProps) errorPrefix of
                           Some e \<Rightarrow> Some (Inl e)
                         | None \<Rightarrow>
                             Some (id_of env (props_path packageProps) (props_name packageProps)
                                     (props_version packageProps) filePath))
                   else Some (id_of env (props_path packageProps) packageName packageVersion
                                filePath)))"

definition legacy_trim :: "char \<Rightarrow> legacy_options \<Rightarrow> legacy_options" where
  "legacy_trim sep options =
     (case rootPath_opt options of
        Some rootPath \<Rightarrow>
          if rootPath \<noteq> [] \<and> rootPath \<noteq> [sep] \<and> last rootPath = sep
          then options\<lparr>rootPath_opt := Some (butlast rootPath)\<rparr>
          else options
      | None \<Rightarrow> options)"

definition legacy_idLength :: "legacy_options \<Rightarrow> int" where
  "legacy_idLength options =
     (case idLength_opt options of
        Some n \<Rightarrow> if n \<noteq> 0 then n else DEFAULT_ID_LEN
      | None \<Rightarrow> DEFAULT_ID_LEN)"

definition legacy_counterKey :: "legacy_options \<Rightarrow> jsval" where
  "legacy_counterKey options =
     (if truthy (counterKey_opt options) then counterKey_opt options else JSym ID_COUNTER)"

definition legacy_errorPrefix :: "legacy_options \<Rightarrow> string" where
  "legacy_errorPrefix options =
     (case pluginName_opt options of
        Some pluginName \<Rightarrow> if pluginName \<noteq> [] then pluginName @ '': '' else []
      | None \<Rightarrow> [])"

definition legacy_count :: "jsval \<Rightarrow> int \<Rightarrow> string \<Rightarrow> session \<Rightarrow> string \<times> session" where
  "legacy_count counterKey idLength idStr file =
     (let count = get_count file counterKey;
          file' = file\<lparr>counters := (counters file)(counterKey \<mapsto> js_succ count)\<rparr>
      in (shortHash (idStr @ '':'' @ decimal count) idLength, file'))"

definition createId_legacy ::
  "node \<Rightarrow> session \<Rightarrow> legacy_options option \<Rightarrow> ((error + string) \<times> session) option" where
  "createId_legacy env file options =
     (let opts = legacy_trim (pathSeparator env)
                   (case options of None \<Rightarrow> no_legacy_options | Some given \<Rightarrow> given);
          idLength = legacy_idLength opts;
          counterKey = legacy_counterKey opts;
          errorPrefix = legacy_errorPrefix opts
      in case cached file of
           Some idStr \<Rightarrow>
             (case legacy_count counterKey idLength idStr file of
                (token, file') \<Rightarrow> Some (Inr token, file'))
         | None \<Rightarrow>
             (case (case filename file of
                      None \<Rightarrow> Some (Inr None)
                    | Some filePath \<Rightarrow>
                        if filePath \<noteq> []
                        then legacy_getIdStrFromPath env filePath opts errorPrefix
                        else Some (Inr None)) of
                None \<Rightarrow> None
              | Some (Inl e) \<Rightarrow> Some (Inl e, file)
              | Some (Inr found) \<Rightarrow>
                  (let idStr = (case found of
                                  Some s \<Rightarrow> if s \<noteq> [] then s else ''code:'' @ sha256Hash (code file)
                                | None \<Rightarrow> ''code:'' @ sha256Hash (code file));
                       file1 = file\<lparr>id_string := Some idStr\<rparr>
                   in case legacy_count counterKey idLength idStr file1 of
                        (token, file') \<Rightarrow> Some (Inr token, file'))))"

section \<open>A POSIX platform with a small file tree\<close>

text \<open>
  Concrete instance of the platform, used where a theorem is run on an input:
  \<open>/app/package.json\<close> names package \<open>pkg\<close> at version \<open>1.0.0\<close>,
  \<open>/app/lib/package.json\<close> only says \<open>type: module\<close>, \<open>/srv/package.json\<close> is cut
  off after its first brace, \<open>/locked/package.json\<close> cannot be read.
\<close>

definition posix_dirname :: "string \<Rightarrow> string" where
  "posix_dirname p =
     (if p = [] then ''.''
      else let hasRoot = (hd p = CHR ''/'');
               r = dropWhile (\<lambda>c. c \<noteq> CHR ''/'') (dropWhile (\<lambda>c. c = CHR ''/'') (rev (tl p)))
           in if r = [] then (if hasRoot then ''/'' else ''.'')
              else if hasRoot \<and> tl r = [] then ''//''
              else hd p # rev (tl r))"

definition posix_join :: "string \<Rightarrow> string \<Rightarrow> string" where
  "posix_join a b = (if a = ''/'' then a @ b else a @ ''/'' @ b)"

definition posix_relative :: "string \<Rightarrow> string \<Rightarrow> string" where
  "posix_relative from to =
     (if take (length from + 1) to = from @ ''/'' then drop (length from + 1) to else to)"

definition quoted :: "string \<Rightarrow> string" where
  "quoted s = CHR 0x22 # s @ [CHR 0x22]"

definition manifest :: string where
  "manifest = ''{'' @ quoted ''name'' @ '':'' @ quoted ''pkg'' @ '','' @
              quoted ''version'' @ '':'' @ quoted ''1.0.0'' @ ''}''"

definition module_only :: string where
  "module_only = ''{'' @ quoted ''type'' @ '':'' @ quoted ''module'' @ ''}''"

definition demo_files :: "string \<Rightarrow> string + string" where
  "demo_files p =
     (if p = ''/app/package.json'' then Inr manifest
      else if p = ''/app/lib/package.json'' then Inr module_only
      else if p = ''/srv/package.json'' then Inr ''{''
      else if p = ''/locked/package.json'' then Inl ''EACCES''
      else Inl ''ENOENT'')"

definition demo_parse :: "string \<Rightarrow> json option" where
  "demo_parse s =
     (if s = manifest
      then Some (JsonObject ((\<lambda>k. JUndefined)(''name'' := JStr ''pkg'', ''version'' := JStr ''1.0.0'')))
      else if s = module_only
      then Some (JsonObject ((\<lambda>k. JUndefined)(''type'' := JStr ''module'')))
      else None)"

definition demo :: node where
  "demo = \<lparr>readFileSync = demo_files, JSON_parse = demo_parse, dirname = posix_dirname,
           pathJoin = posix_join, pathRelative = posix_relative, pathSeparator = CHR ''/''\<rparr>"

definition no_options :: obj where
  "no_options = (\<lambda>k. JUndefined)"

section \<open>Notions used in the statements\<close>

text \<open>
  A word reduced to its value below \<open>2^32\<close>, the same word.
\<close>

definition nrm :: "u32 \<Rightarrow> u32" where
  "nrm w = word_of_nat (unat w)"

text \<open>
  \<open>touches K a h h'\<close>: from \<open>h\<close> to \<open>h'\<close> nothing changed but properties in \<open>K\<close> of
  the object at \<open>a\<close>.
\<close>

definition touches :: "string set \<Rightarrow> nat \<Rightarrow> heap \<Rightarrow> heap \<Rightarrow> bool" where
  "touches K a h h' \<longleftrightarrow>
     length h' = length h \<and> (\<forall>i. i \<noteq> a \<longrightarrow> h' ! i = h ! i) \<and>
     (\<forall>k. k \<notin> K \<longrightarrow> get_prop h' a k = get_prop h a k)"

definition written :: "string set" where
  "written = {''invariant'', ''rootPath'', ''isPackage'', ''idLength'', ''counterKey''}"

text \<open>
  \<open>supplied h options k\<close> is the option \<open>k\<close> as normalisation sees it: the caller's
  value, with null taken for undefined.  \<open>copied\<close> is the store after the copy was made.
  \<open>at_copy s ob\<close> runs a stage on a store that holds the object \<open>ob\<close> alone, and
  \<open>conformed\<close> is \<open>conformOptions\<close> so run: the normalised copy and the error thrown.
\<close>

definition supplied :: "heap \<Rightarrow> nat option \<Rightarrow> string \<Rightarrow> jsval" where
  "supplied h options k = null_to_undefined (spread h options) k"

definition copied :: "heap \<Rightarrow> nat option \<Rightarrow> heap" where
  "copied h options = h @ [null_to_undefined (spread h options)]"



definition early :: "node \<Rightarrow> stage list" where
  "early env = [stage_pluginName, stage_strings, stage_rootPath (pathSeparator env),
                stage_isPackage, stage_pairing]"

text \<open>
  The counter key and the length in force for given options; \<open>createId_times n\<close> is call
  number \<open>n\<close> (from 0) of a run of calls with the same options on one session, a run that
  stops at the first call that throws.
\<close>

definition valid_ref :: "heap \<Rightarrow> nat option \<Rightarrow> bool" where
  "valid_ref h options = (case options of None \<Rightarrow> True | Some r \<Rightarrow> r < length h)"

definition effective_counterKey :: "heap \<Rightarrow> nat option \<Rightarrow> jsval" where
  "effective_counterKey h options =
     (if supplied h options ''counterKey'' = JUndefined then JSym ID_COUNTER
      else supplied h options ''counterKey'')"

definition effective_idLength :: "heap \<Rightarrow> nat option \<Rightarrow> int" where
  "effective_idLength h options =
     (case supplied h options ''idLength'' of JNum (Integer n) \<Rightarrow> n | _ \<Rightarrow> DEFAULT_ID_LEN)"

fun createId_times ::
  "nat \<Rightarrow> node \<Rightarrow> heap \<Rightarrow> session \<Rightarrow> nat option \<Rightarrow> ((error + string) \<times> heap \<times> session) option" where
  "createId_times 0 env h file options = createId env h file options"
| "createId_times (Suc n) env h file options =
     (case createId env h file options of
        Some (Inr token, h', file') \<Rightarrow> createId_times n env h' file' options
      | other \<Rightarrow> other)"

text \<open>What a call returned, threw, and left behind.\<close>

definition token_of :: "((error + string) \<times> heap \<times> session) option \<Rightarrow> string option" where
  "token_of outcome = (case outcome of Some (Inr token, h', file') \<Rightarrow> Some token | _ \<Rightarrow> None)"

definition thrown :: "((error + string) \<times> heap \<times> session) option \<Rightarrow> error option" where
  "thrown outcome = (case outcome of Some (Inl e, h', file') \<Rightarrow> Some e | _ \<Rightarrow> None)"

definition session_of :: "((error + string) \<times> heap \<times> session) option \<Rightarrow> session option" where
  "session_of outcome = (case outcome of Some (r, h', file') \<Rightarrow> Some file' | None \<Rightarrow> None)"

definition heap_of :: "((error + string) \<times> heap \<times> session) option \<Rightarrow> heap option" where
  "heap_of outcome = (case outcome of Some (r, h', file') \<Rightarrow> Some h' | None \<Rightarrow> None)"


definition ancestor :: "node \<Rightarrow> string \<Rightarrow> nat \<Rightarrow> string" where
  "ancestor env p k = (dirname env ^^ k) p"

definition unnamed_or_missing :: "node \<Rightarrow> string \<Rightarrow> bool" where
  "unnamed_or_missing env dir =
     (case readFileSync env (pathJoin env dir ''package.json'') of
        Inl errcode \<Rightarrow> errcode = ''ENOENT''
      | Inr pkgStr \<Rightarrow>
          (case JSON_parse env pkgStr of
             Some (JsonObject pkgObj) \<Rightarrow> \<not> truthy (pkgObj ''name'')
           | _ \<Rightarrow> False))"

text \<open>Two sessions: one without a file path, one for \<open>/app/lib/index.js\<close>.\<close>

definition file0 :: session where
  "file0 = \<lparr>filename = None, code = ''foo();'', id_string = None, counters = (\<lambda>k. None)\<rparr>"

definition file_index :: session where
  "file_index = \<lparr>filename = Some ''/app/lib/index.js'', code = ''foo();'', id_string = None,
                 counters = (\<lambda>k. None)\<rparr>"

section \<open>Shape of the digest and of its base64 rendering\<close>

lemma length_round256: "length (round256 k w s) = length s"
  by (induction k w s rule: round256.induct) (simp_all add: Let_def)

lemma length_rounds: "length (rounds ks w s) = length s"
  by (induction ks w s rule: rounds.induct) (simp_all add: length_round256)

lemma length_compress: "length (compress h blk) = length h"
  by (simp add: compress_def length_rounds)

lemma length_blocks: "length (blocks h ws) = length h"
  by (induction h ws rule: blocks.induct) (simp_all add: length_compress)

lemma length_concat_be32: "length (concat (map be32 ws)) = 4 * length ws"
  by (induction ws) (simp_all add: be32_def)

lemma length_sha256: "length (sha256 m) = 32"
  by (simp add: sha256_def length_concat_be32 length_blocks H256_def)

lemma length_b64chars: "length b64chars = 64"
  by (simp add: b64chars_def)

lemma b64_alphabet: "i < 64 \<Longrightarrow> b64 i \<in> set b64chars"
  by (simp add: b64_def length_b64chars)

lemma b64_letter:
  assumes "i < 32"
  shows "b64 i \<in> set ''ABCDEFGHIJKLMNOPQRSTUVWXYZabcdef''"
proof -
  have t: "take 32 b64chars = ''ABCDEFGHIJKLMNOPQRSTUVWXYZabcdef''"
    by (simp add: b64chars_def)
  have "b64 i = take 32 b64chars ! i"
    using assms by (simp add: b64_def)
  moreover have "take 32 b64chars ! i \<in> set (take 32 b64chars)"
    using assms by (intro nth_mem) (simp add: length_b64chars)
  ultimately show ?thesis
    by (simp only: t)
qed

lemma unat_byte_less: "unat (a :: byte) < 256"
proof -
  have "unat a < 2 ^ LENGTH(8)"
    by (rule unsigned_less)
  then show ?thesis by simp
qed

lemma sextets:
  "unat (a :: byte) div 4 < 64"
  "unat a mod 4 * 16 + unat (b :: byte) div 16 < 64"
  "unat b mod 16 * 4 + unat (c :: byte) div 64 < 64"
  "unat c mod 64 < 64"
  "unat b mod 16 * 4 < 64"
  "unat a mod 4 * 16 < 64"
  using unat_byte_less [of a] unat_byte_less [of b] unat_byte_less [of c] by arith+

lemma base64_triples:
  "length bs mod 3 = 0 \<Longrightarrow>
     set (base64 bs) \<subseteq> set b64chars \<and> length (base64 bs) = 4 * (length bs div 3)"
proof (induction bs rule: base64.induct)
  case (1 a b c bs)
  have "(3 + length bs) div 3 = Suc (length bs div 3)"
    by simp
  with 1 show ?case
    by (simp add: b64_alphabet sextets)
qed simp_all

lemma base64_append:
  "length xs mod 3 = 0 \<Longrightarrow> base64 (xs @ ys) = base64 xs @ base64 ys"
  by (induction xs rule: base64.induct) simp_all

lemma base64_hd:
  "3 \<le> length bs \<Longrightarrow> hd (base64 bs) = b64 (unat (hd bs) div 4)"
  by (cases bs rule: base64.cases) simp_all

lemma base64_32:
  assumes "length bs = 32"
  obtains body where "base64 bs = body @ ''=''" "length body = 43" "set body \<subseteq> set b64chars"
    "hd body = b64 (unat (hd bs) div 4)"
proof -
  define xs where "xs = take 30 bs"
  define ys where "ys = drop 30 bs"
  have "length ys = 2"
    using assms by (simp add: ys_def)
  then obtain a b where "ys = [a, b]"
    by (auto simp: length_Suc_conv numeral_2_eq_2)
  then have bs: "bs = xs @ [a, b]"
    unfolding xs_def ys_def by (metis append_take_drop_id)
  have lx: "length xs = 30"
    using assms by (simp add: xs_def)
  then have tri: "set (base64 xs) \<subseteq> set b64chars" "length (base64 xs) = 40"
    using base64_triples [of xs] by simp_all
  define body where
    "body = base64 xs @ [b64 (unat a div 4), b64 (unat a mod 4 * 16 + unat b div 16), b64 (unat b mod 16 * 4)]"
  have e: "base64 bs = body @ ''=''"
    using lx by (simp add: bs base64_append body_def)
  have l: "length body = 43"
    by (simp add: body_def tri)
  have s: "set body \<subseteq> set b64chars"
    using tri(1) by (simp add: body_def b64_alphabet sextets)
  have "hd (base64 bs) = b64 (unat (hd bs) div 4)"
    using assms by (simp add: base64_hd)
  then have h: "hd body = b64 (unat (hd bs) div 4)"
    using e l by (cases body) simp_all
  show thesis
    using that [OF e l s h] .
qed

lemma strip_eq_id: "CHR ''='' \<notin> set s \<Longrightarrow> strip_eq s = s"
proof -
  assume a: "CHR ''='' \<notin> set s"
  have "dropWhile (\<lambda>c. c = CHR ''='') (rev s) = rev s"
    using a by (cases "rev s") auto
  then show ?thesis
    by (simp add: strip_eq_def)
qed

lemma eq_not_b64: "CHR ''='' \<notin> set b64chars"
  by (simp add: b64chars_def)

lemma ident_of_b64:
  "\<forall>c \<in> set b64chars.
     hd (replace_all (CHR ''/'') (CHR ''$'') (replace_all (CHR ''+'') (CHR ''_'') [c])) \<in> ident_chars"
  unfolding list_all_iff [symmetric] by (simp add: b64chars_def ident_chars_def replace_all_def)

lemma letters_kept:
  "\<forall>c \<in> set ''ABCDEFGHIJKLMNOPQRSTUVWXYZabcdef''.
     hd (replace_all (CHR ''/'') (CHR ''$'') (replace_all (CHR ''+'') (CHR ''_'') [c])) = c"
  unfolding list_all_iff [symmetric] by (simp add: replace_all_def)

lemma length_clear_top_bit: "length (clear_top_bit buf) = length buf"
  by (simp add: clear_top_bit_def split: list.splits)

lemma hd_clear_top_bit: "buf \<noteq> [] \<Longrightarrow> unat (hd (clear_top_bit buf)) < 128"
proof -
  assume "buf \<noteq> []"
  then obtain b bs where buf: "buf = b # bs"
    by (cases buf) auto
  have "unat (b AND 127) \<le> unat (127 :: byte)"
    by (rule word_and_le1 [THEN word_le_nat_alt [THEN iffD1]])
  then show ?thesis
    by (simp add: buf clear_top_bit_def)
qed

lemma shortHash_shape:
  assumes "1 \<le> len" "len \<le> 43"
  shows "length (shortHash str len) = nat len"
    and "set (shortHash str len) \<subseteq> ident_chars"
    and "hd (shortHash str len) \<in> set ''ABCDEFGHIJKLMNOPQRSTUVWXYZabcdef''"
proof -
  define buf where "buf = clear_top_bit (sha256 (utf8 str))"
  have lb: "length buf = 32"
    by (simp add: buf_def length_clear_top_bit length_sha256)
  have "sha256 (utf8 str) \<noteq> []"
    using length_sha256 [of "utf8 str"] by auto
  then have top: "unat (hd buf) < 128"
    unfolding buf_def by (rule hd_clear_top_bit)
  from base64_32 [OF lb] obtain body where
    e: "base64 buf = body @ ''=''" and l: "length body = 43" and
    s: "set body \<subseteq> set b64chars" and h: "hd body = b64 (unat (hd buf) div 4)"
    by blast
  define t where "t = take (nat len) body"
  have sl: "slice0 (base64 buf) len = t"
    using assms l by (simp add: slice0_def e t_def)
  have lt: "length t = nat len"
    using assms l by (simp add: t_def)
  have st: "set t \<subseteq> set b64chars"
    using s set_take_subset [of "nat len" body] by (auto simp: t_def)
  then have "CHR ''='' \<notin> set t"
    using eq_not_b64 by auto
  then have se: "strip_eq t = t"
    by (rule strip_eq_id)
  define f where "f = (\<lambda>c. hd (replace_all (CHR ''/'') (CHR ''$'') (replace_all (CHR ''+'') (CHR ''_'') [c])))"
  have sh: "shortHash str len = map f t"
    by (simp add: shortHash_def buf_def [symmetric] sl se replace_all_def f_def)
  show "length (shortHash str len) = nat len"
    by (simp add: sh lt)
  have "f c \<in> ident_chars" if "c \<in> set t" for c
  proof -
    have "c \<in> set b64chars"
      using that st by blast
    then show ?thesis
      unfolding f_def by (rule ident_of_b64 [rule_format])
  qed
  then show "set (shortHash str len) \<subseteq> ident_chars"
    by (auto simp: sh)
  have ne: "t \<noteq> []"
    using lt assms by auto
  have "hd t = hd body"
    using assms by (simp add: t_def)
  moreover have "unat (hd buf) div 4 < 32"
    using top by simp
  ultimately have "hd t \<in> set ''ABCDEFGHIJKLMNOPQRSTUVWXYZabcdef''"
    using h b64_letter by simp
  then have "f (hd t) = hd t"
    unfolding f_def by (rule letters_kept [rule_format])
  then show "hd (shortHash str len) \<in> set ''ABCDEFGHIJKLMNOPQRSTUVWXYZabcdef''"
    using ne \<open>hd t \<in> _\<close> by (simp add: sh hd_map)
qed

section \<open>Running SHA-256 on the fixtures\<close>

text \<open>
  Numerals of type \<open>32 word\<close> are not reduced modulo \<open>2^32\<close> by the simplifier, so the
  rounds are run through equations that reduce after each step.
\<close>

lemma nrm_id: "nrm w = w"
  by (simp add: nrm_def)

lemma round256_eval:
  "round256 k w [a, b, c, d, e, f, g, h] =
     (let t1 = nrm (h + bsig1 e + Ch e f g + k + w);
          t2 = nrm (bsig0 a + Maj a b c)
      in [nrm (t1 + t2), a, b, c, nrm (d + t1), e, f, g])"
  by (simp add: nrm_id)

lemma next_w_eval:
  "next_w (w0 # w1 # ws) = w1 # ws @ [nrm (ssig1 (ws ! 12) + ws ! 7 + ssig0 w1 + w0)]"
  by (simp add: nrm_id)

lemma compress_eval:
  "compress h blk = map nrm (map2 (+) h (rounds K256 blk h))"
proof -
  have "map nrm xs = xs" for xs
    by (induction xs) (simp_all add: nrm_id)
  then show ?thesis
    by (simp only: compress_def)
qed

lemma replicate_numeral: "replicate (numeral k) x = x # replicate (pred_numeral k) x"
  by (simp add: numeral_eq_Suc)

lemmas sha_eval = sha256_def pad_def be64_def be32_def utf8_def replicate_numeral
  round256_eval next_w_eval compress_eval nrm_def
  H256_def K256_def rotr_def Ch_def Maj_def bsig0_def bsig1_def ssig0_def ssig1_def

lemma sha_foo: "sha256Hash ''foo();'' = ''qMVaiPhbudnaz91QqECVnbdTvKWnqeultnb/Nt/ybo8=''"
  by (simp add: sha256Hash_def sha_eval b64_def b64chars_def del: round256.simps next_w.simps)

lemma tok0: "shortHash ''code:qMVaiPhbudnaz91QqECVnbdTvKWnqeultnb/Nt/ybo8=:0'' 8 = ''AcQ5z4Sv''"
  by (simp add: shortHash_def sha_eval b64_def b64chars_def clear_top_bit_def slice0_def strip_eq_def replace_all_def
      del: round256.simps next_w.simps)

lemma tok1: "shortHash ''code:qMVaiPhbudnaz91QqECVnbdTvKWnqeultnb/Nt/ybo8=:1'' 8 = ''Wr4qdHBd''"
  by (simp add: shortHash_def sha_eval b64_def b64chars_def clear_top_bit_def slice0_def strip_eq_def replace_all_def
      del: round256.simps next_w.simps)

section \<open>Stages of conformOptions\<close>

lemma length_set_prop: "length (set_prop h a k v) = length h"
  by (simp add: set_prop_def)

lemma nth_set_prop_other: "i \<noteq> a \<Longrightarrow> set_prop h a k v ! i = h ! i"
  by (simp add: set_prop_def)

lemma get_prop_set_prop:
  "a < length h \<Longrightarrow> get_prop (set_prop h a k v) a k' = (if k' = k then v else get_prop h a k')"
  by (simp add: set_prop_def get_prop_def)

lemma toString_Inl: "(\<exists>e. toString v = Inl e) = isSymbol v"
  by (cases v rule: toString.cases) simp_all

lemma call_invariant_None: "call_invariant invariant condition msg = None \<Longrightarrow> condition"
  by (cases invariant) (auto simp: tinyInvariant_def split: if_splits)

lemma call_invariant_Some: "\<not> condition \<Longrightarrow> \<exists>e. call_invariant invariant condition msg = Some e"
  by (cases invariant) (auto simp: tinyInvariant_def)

lemma invariant_got_None:
  assumes "invariant_got invariant condition text v = None"
  shows "condition \<and> \<not> isSymbol v"
proof (cases "toString v")
  case (Inl e)
  with assms show ?thesis
    by (simp add: invariant_got_def)
next
  case (Inr s)
  with assms have "call_invariant invariant condition (text @ s) = None"
    by (simp add: invariant_got_def)
  then have condition
    by (rule call_invariant_None)
  moreover have "\<not> isSymbol v"
    using Inr toString_Inl [of v] by auto
  ultimately show ?thesis ..
qed

lemma invariant_got_Some:
  assumes "\<not> condition"
  shows "\<exists>e. invariant_got invariant condition text v = Some e"
proof (cases "toString v")
  case (Inl e)
  then show ?thesis
    by (simp add: invariant_got_def)
next
  case (Inr s)
  with call_invariant_Some [OF assms, of invariant "text @ s"] show ?thesis
    by (simp add: invariant_got_def)
qed

lemma invariant_got_symbol:
  "invariant_got invariant condition text (JSym s) =
     Some (TypeError ''Cannot convert a Symbol value to a string'')"
  by (simp add: invariant_got_def)

lemma validate_strings_None:
  "validate_strings invariant h a opts = None \<Longrightarrow> opt \<in> set opts \<Longrightarrow>
     get_prop h a opt = JUndefined \<or> isFullString (get_prop h a opt)"
proof (induction opts)
  case Nil
  then show ?case by simp
next
  case (Cons x xs)
  let ?v = "get_prop h a x"
  from Cons.prems(1) have
    ok: "invariant_got invariant (?v = JUndefined \<or> isFullString ?v)
          (''options.'' @ x @ '' must be a non-empty string if provided - got '') ?v = None"
    and rest: "validate_strings invariant h a xs = None"
    by (auto simp: Let_def split: option.splits)
  from ok have "?v = JUndefined \<or> isFullString ?v"
    by (auto dest: invariant_got_None)
  with Cons.IH [OF rest] Cons.prems(2) show ?case
    by auto
qed

lemma validate_strings_Some:
  "opt \<in> set opts \<Longrightarrow> get_prop h a opt \<noteq> JUndefined \<Longrightarrow> \<not> isFullString (get_prop h a opt) \<Longrightarrow>
     \<exists>e. validate_strings invariant h a opts = Some e"
  using validate_strings_None [of invariant h a opts opt]
  by (cases "validate_strings invariant h a opts") auto

lemma touches_refl: "touches K a h h"
  by (simp add: touches_def)

lemma touches_set_prop: "a < length h \<Longrightarrow> k \<in> K \<Longrightarrow> touches K a h (set_prop h a k v)"
  by (auto simp: touches_def length_set_prop nth_set_prop_other get_prop_set_prop)

lemma touches_mono: "touches K a h h' \<Longrightarrow> K \<subseteq> K' \<Longrightarrow> touches K' a h h'"
  by (auto simp: touches_def)

lemma touches_trans: "touches K a h h' \<Longrightarrow> touches K a h' h'' \<Longrightarrow> touches K a h h''"
  by (auto simp: touches_def)

lemma stage_pluginName_touches:
  "a < length h \<Longrightarrow> touches {''invariant''} a h (fst (stage_pluginName h a))"
  by (simp add: stage_pluginName_def Let_def touches_refl touches_set_prop split: option.split)

lemma stage_strings_touches: "touches {} a h (fst (stage_strings h a))"
  by (simp add: stage_strings_def touches_refl)

lemma stage_rootPath_touches:
  "a < length h \<Longrightarrow> touches {''rootPath''} a h (fst (stage_rootPath sep h a))"
  by (simp add: stage_rootPath_def touches_refl touches_set_prop split: jsval.split)

lemma stage_isPackage_touches:
  "a < length h \<Longrightarrow> touches {''isPackage''} a h (fst (stage_isPackage h a))"
  by (simp add: stage_isPackage_def Let_def touches_refl touches_set_prop)

lemma stage_pairing_touches: "touches {} a h (fst (stage_pairing h a))"
  by (simp add: stage_pairing_def touches_refl)

lemma stage_idLength_touches:
  "a < length h \<Longrightarrow> touches {''idLength''} a h (fst (stage_idLength h a))"
  by (simp add: stage_idLength_def Let_def touches_refl touches_set_prop)

lemma stage_counterKey_touches:
  "a < length h \<Longrightarrow> touches {''counterKey''} a h (fst (stage_counterKey h a))"
  by (simp add: stage_counterKey_def Let_def touches_refl touches_set_prop)

lemma stages_touch:
  assumes "s \<in> set (stages env)" "a < length h"
  shows "touches written a h (fst (s h a))"
proof -
  have 1: "touches written a h (fst (stage_pluginName h a))"
    by (rule touches_mono [OF stage_pluginName_touches [OF assms(2)]]) (simp add: written_def)
  have 2: "touches written a h (fst (stage_strings h a))"
    by (rule touches_mono [OF stage_strings_touches]) simp
  have 3: "touches written a h (fst (stage_rootPath (pathSeparator env) h a))"
    by (rule touches_mono [OF stage_rootPath_touches [OF assms(2)]]) (simp add: written_def)
  have 4: "touches written a h (fst (stage_isPackage h a))"
    by (rule touches_mono [OF stage_isPackage_touches [OF assms(2)]]) (simp add: written_def)
  have 5: "touches written a h (fst (stage_pairing h a))"
    by (rule touches_mono [OF stage_pairing_touches]) simp
  have 6: "touches written a h (fst (stage_idLength h a))"
    by (rule touches_mono [OF stage_idLength_touches [OF assms(2)]]) (simp add: written_def)
  have 7: "touches written a h (fst (stage_counterKey h a))"
    by (rule touches_mono [OF stage_counterKey_touches [OF assms(2)]]) (simp add: written_def)
  from assms(1) have "s = stage_pluginName \<or> s = stage_strings
    \<or> s = stage_rootPath (pathSeparator env) \<or> s = stage_isPackage \<or> s = stage_pairing
    \<or> s = stage_idLength \<or> s = stage_counterKey"
    by (simp add: stages_def)
  with 1 2 3 4 5 6 7 show ?thesis
    by (elim disjE) simp_all
qed

lemma run_stages_touches:
  assumes "\<And>s h. s \<in> set ss \<Longrightarrow> a < length h \<Longrightarrow> touches K a h (fst (s h a))"
    and "a < length h"
  shows "touches K a h (fst (run_stages ss h a))"
  using assms
proof (induction ss arbitrary: h)
  case Nil
  then show ?case by (simp add: touches_refl)
next
  case (Cons s ss)
  obtain h1 r where s: "s h a = (h1, r)"
    by (cases "s h a")
  have t1: "touches K a h h1"
    using Cons.prems(1) [of s h] Cons.prems(2) s by simp
  then have l1: "a < length h1"
    using Cons.prems(2) by (simp add: touches_def)
  show ?case
  proof (cases r)
    case None
    have "touches K a h1 (fst (run_stages ss h1 a))"
      using Cons.IH [OF _ l1] Cons.prems(1) by simp
    with t1 have "touches K a h (fst (run_stages ss h1 a))"
      by (rule touches_trans)
    then show ?thesis
      using s None by simp
  next
    case (Some e)
    with t1 s show ?thesis by simp
  qed
qed

lemma run_stages_fails:
  assumes "Q h"
    and "\<And>s h h'. s \<in> set pre \<Longrightarrow> Q h \<Longrightarrow> s h a = (h', None) \<Longrightarrow> Q h'"
    and "\<And>h. Q h \<Longrightarrow> \<exists>h' e. s h a = (h', Some e)"
  shows "\<exists>h' e. run_stages (pre @ s # post) h a = (h', Some e)"
  using assms(1,2)
proof (induction pre arbitrary: h)
  case Nil
  from assms(3) [OF Nil(1)] show ?case
    by auto
next
  case (Cons p pre)
  obtain h1 r where p: "p h a = (h1, r)"
    by (cases "p h a")
  show ?case
  proof (cases r)
    case None
    have q1: "Q h1"
      using Cons.prems(2) [of p h h1] Cons.prems(1) p None by simp
    have "\<exists>h' e. run_stages (pre @ s # post) h1 a = (h', Some e)"
    proof (rule Cons.IH [OF q1])
      fix s' h h'
      assume "s' \<in> set pre" "Q h" "s' h a = (h', None)"
      then show "Q h'"
        using Cons.prems(2) [of s' h h'] by simp
    qed
    then show ?thesis
      using p None by simp
  next
    case (Some e)
    with p show ?thesis by simp
  qed
qed

lemma conformOptions_alt:
  "conformOptions env h options =
     (case run_stages (stages env) (copied h options) (length h) of
        (h', Some e) \<Rightarrow> (h', Inl e)
      | (h', None) \<Rightarrow> (h', Inr (length h)))"
  by (simp add: conformOptions_def copied_def Let_def)

lemma get_prop_copied: "get_prop (copied h options) (length h) k = supplied h options k"
  by (simp add: copied_def get_prop_def supplied_def)

lemma length_copied: "length (copied h options) = Suc (length h)"
  by (simp add: copied_def)

lemma nth_copied: "i < length h \<Longrightarrow> copied h options ! i = h ! i"
  by (simp add: copied_def nth_append)

lemma conformOptions_frame:
  assumes "conformOptions env h options = (h', r)"
  shows "length h' = Suc (length h)" and "\<forall>i<length h. h' ! i = h ! i"
proof -
  have "touches written (length h) (copied h options)
          (fst (run_stages (stages env) (copied h options) (length h)))"
    by (rule run_stages_touches) (simp_all add: stages_touch length_copied)
  moreover have "h' = fst (run_stages (stages env) (copied h options) (length h))"
    using assms by (simp add: conformOptions_alt split: prod.splits option.splits)
  ultimately have t: "touches written (length h) (copied h options) h'"
    by simp
  then show "length h' = Suc (length h)"
    by (simp add: touches_def length_copied)
  from t show "\<forall>i<length h. h' ! i = h ! i"
    by (simp add: touches_def nth_copied)
qed

lemma conformOptions_fails:
  assumes "\<exists>h' e. run_stages (stages env) (copied h options) (length h) = (h', Some e)"
  shows "\<exists>h' e. conformOptions env h options = (h', Inl e)"
  using assms by (auto simp: conformOptions_alt)

lemma createId_fails:
  assumes "conformOptions env h options = (h', Inl e)"
  shows "createId env h file options = Some (Inl e, h', file)"
  using assms by (simp add: createId_def)

lemma stages_split: "stages env = early env @ [stage_idLength, stage_counterKey]"
  by (simp add: stages_def early_def)

lemma early_touch:
  assumes "s \<in> set (early env)" "a < length h"
  shows "touches {''invariant'', ''rootPath'', ''isPackage''} a h (fst (s h a))"
proof -
  let ?K = "{''invariant'', ''rootPath'', ''isPackage''}"
  have 1: "touches ?K a h (fst (stage_pluginName h a))"
    by (rule touches_mono [OF stage_pluginName_touches [OF assms(2)]]) simp
  have 2: "touches ?K a h (fst (stage_strings h a))"
    by (rule touches_mono [OF stage_strings_touches]) simp
  have 3: "touches ?K a h (fst (stage_rootPath (pathSeparator env) h a))"
    by (rule touches_mono [OF stage_rootPath_touches [OF assms(2)]]) simp
  have 4: "touches ?K a h (fst (stage_isPackage h a))"
    by (rule touches_mono [OF stage_isPackage_touches [OF assms(2)]]) simp
  have 5: "touches ?K a h (fst (stage_pairing h a))"
    by (rule touches_mono [OF stage_pairing_touches]) simp
  from assms(1) have "s = stage_pluginName \<or> s = stage_strings
    \<or> s = stage_rootPath (pathSeparator env) \<or> s = stage_isPackage \<or> s = stage_pairing"
    by (simp add: early_def)
  with 1 2 3 4 5 show ?thesis
    by (elim disjE) simp_all
qed

lemma early_keeps:
  assumes "s \<in> set (early env)" "a < length h" "s h a = (h', r)"
    and "k \<notin> {''invariant'', ''rootPath'', ''isPackage''}"
  shows "a < length h' \<and> get_prop h' a k = get_prop h a k"
  using early_touch [OF assms(1,2)] assms(2,3,4) by (simp add: touches_def)

lemma stage_idLength_Some:
  assumes "get_prop h a ''idLength'' \<noteq> JUndefined" "\<not> isPositiveInteger (get_prop h a ''idLength'')"
  shows "\<exists>h' e. stage_idLength h a = (h', Some e)"
  using assms invariant_got_Some [of "isPositiveInteger (get_prop h a ''idLength'')"]
  by (simp add: stage_idLength_def Let_def)

lemma stage_counterKey_Some:
  assumes "get_prop h a ''counterKey'' \<noteq> JUndefined"
  shows "\<exists>h' e. stage_counterKey h a = (h', Some e)"
proof (cases "isSymbol (get_prop h a ''counterKey'')")
  case True
  then obtain s where "get_prop h a ''counterKey'' = JSym s"
    by (cases "get_prop h a ''counterKey''") auto
  then show ?thesis
    by (simp add: stage_counterKey_def Let_def invariant_got_symbol)
next
  case False
  then show ?thesis
    using assms invariant_got_Some [of "isSymbol (get_prop h a ''counterKey'')"]
    by (simp add: stage_counterKey_def Let_def)
qed

lemma stage_pairing_Some:
  assumes "truthy (get_prop h a ''packageName'') \<noteq> truthy (get_prop h a ''packageVersion'')"
  shows "\<exists>h' e. stage_pairing h a = (h', Some e)"
  using assms
    call_invariant_Some [of "(\<not> truthy (get_prop h a ''packageName'')) = (\<not> truthy (get_prop h a ''packageVersion''))"]
  by (auto simp: stage_pairing_def)

lemma stage_strings_Some:
  assumes "opt \<in> {''rootPath'', ''packageName'', ''packageVersion''}"
    and "get_prop h a opt \<noteq> JUndefined" "\<not> isFullString (get_prop h a opt)"
  shows "\<exists>h' e. stage_strings h a = (h', Some e)"
  using validate_strings_Some [of opt "[''rootPath'', ''packageName'', ''packageVersion'']" h a] assms
  by (auto simp: stage_strings_def)

lemma run_stages_append_None:
  "run_stages (xs @ ys) h a = (h', None) \<longleftrightarrow>
     (\<exists>h1. run_stages xs h a = (h1, None) \<and> run_stages ys h1 a = (h', None))"
proof (induction xs arbitrary: h)
  case Nil
  show ?case by simp
next
  case (Cons x xs)
  obtain h1 r where x: "x h a = (h1, r)"
    by (cases "x h a")
  show ?case
    using Cons [of h1] x by (cases r) simp_all
qed

lemma stage_idLength_None:
  assumes "stage_idLength h a = (h', None)" "a < length h"
  shows "\<exists>n. 0 < n \<and> get_prop h' a ''idLength'' = JNum (Integer n) \<and>
           (if get_prop h a ''idLength'' = JUndefined then n = DEFAULT_ID_LEN
            else get_prop h a ''idLength'' = JNum (Integer n))"
proof (cases "get_prop h a ''idLength'' = JUndefined")
  case True
  with assms show ?thesis
    by (auto simp: stage_idLength_def Let_def get_prop_set_prop DEFAULT_ID_LEN_def)
next
  case False
  with assms have h': "h' = h" and
    "invariant_got (invariant_of (h ! a)) (isPositiveInteger (get_prop h a ''idLength''))
       ''options.idLength must be a positive integer if provided - got '' (get_prop h a ''idLength'') = None"
    by (auto simp: stage_idLength_def Let_def)
  then have "isPositiveInteger (get_prop h a ''idLength'')"
    by (auto dest: invariant_got_None)
  then obtain n where "get_prop h a ''idLength'' = JNum (Integer n)" "0 < n"
    by (cases "get_prop h a ''idLength''" rule: isPositiveInteger.cases) auto
  with False h' show ?thesis
    by auto
qed

lemma stage_counterKey_None:
  assumes "stage_counterKey h a = (h', None)" "a < length h"
  shows "get_prop h a ''counterKey'' = JUndefined \<and> h' = set_prop h a ''counterKey'' (JSym ID_COUNTER)"
proof (cases "get_prop h a ''counterKey'' = JUndefined")
  case True
  with assms show ?thesis
    by (auto simp: stage_counterKey_def Let_def)
next
  case False
  from stage_counterKey_Some [OF False] assms(1) show ?thesis
    by auto
qed

lemma conformOptions_Inr:
  assumes "conformOptions env h options = (h', Inr a)"
  shows "a = length h" and "a < length h'"
    and "supplied h options ''counterKey'' = JUndefined"
    and "(h' ! a) ''counterKey'' = JSym ID_COUNTER"
    and "\<exists>n. 0 < n \<and> (h' ! a) ''idLength'' = JNum (Integer n) \<and>
           (if supplied h options ''idLength'' = JUndefined then n = DEFAULT_ID_LEN
            else supplied h options ''idLength'' = JNum (Integer n))"
proof -
  from assms have a: "a = length h"
    and run: "run_stages (early env @ [stage_idLength, stage_counterKey]) (copied h options) a = (h', None)"
    by (auto simp: conformOptions_alt stages_split split: prod.splits option.splits)
  from run obtain h1 where
    r1: "run_stages (early env) (copied h options) a = (h1, None)" and
    r2: "run_stages [stage_idLength, stage_counterKey] h1 a = (h', None)"
    unfolding run_stages_append_None by blast
  have "touches {''invariant'', ''rootPath'', ''isPackage''} a (copied h options)
          (fst (run_stages (early env) (copied h options) a))"
    by (rule run_stages_touches) (simp_all add: early_touch a length_copied)
  with r1 have t1: "touches {''invariant'', ''rootPath'', ''isPackage''} a (copied h options) h1"
    by simp
  then have l1: "a < length h1"
    and i1: "get_prop h1 a ''idLength'' = supplied h options ''idLength''"
    and c1: "get_prop h1 a ''counterKey'' = supplied h options ''counterKey''"
    by (simp_all add: touches_def a length_copied get_prop_copied)
  from r2 obtain h2 where s1: "stage_idLength h1 a = (h2, None)"
    and s2: "stage_counterKey h2 a = (h', None)"
    by (auto split: prod.splits option.splits)
  have t2: "touches {''idLength''} a h1 h2"
    using stage_idLength_touches [OF l1] s1 by simp
  then have l2: "a < length h2" and c2: "get_prop h2 a ''counterKey'' = supplied h options ''counterKey''"
    using l1 c1 by (simp_all add: touches_def)
  from stage_idLength_None [OF s1 l1] obtain n where
    n: "0 < n" "get_prop h2 a ''idLength'' = JNum (Integer n)"
       "if supplied h options ''idLength'' = JUndefined then n = DEFAULT_ID_LEN
        else supplied h options ''idLength'' = JNum (Integer n)"
    unfolding i1 by blast
  from stage_counterKey_None [OF s2 l2] have
    u: "supplied h options ''counterKey'' = JUndefined" and
    h': "h' = set_prop h2 a ''counterKey'' (JSym ID_COUNTER)"
    unfolding c2 by simp_all
  show "a = length h" by (rule a)
  show "a < length h'"
    using l2 by (simp add: h' length_set_prop)
  show "supplied h options ''counterKey'' = JUndefined" by (rule u)
  have g: "(h' ! a) k = get_prop h' a k" for k
    by (simp add: get_prop_def)
  show "(h' ! a) ''counterKey'' = JSym ID_COUNTER"
    unfolding g using l2 by (simp add: h' get_prop_set_prop)
  have "get_prop h' a ''idLength'' = JNum (Integer n)"
    using l2 n(2) by (simp add: h' get_prop_set_prop)
  with n show "\<exists>n. 0 < n \<and> (h' ! a) ''idLength'' = JNum (Integer n) \<and>
           (if supplied h options ''idLength'' = JUndefined then n = DEFAULT_ID_LEN
            else supplied h options ''idLength'' = JNum (Integer n))"
    unfolding g by blast
qed

section \<open>conformOptions reads only its copy of the options\<close>

















section \<open>One call of createId\<close>

lemma add_counter_eq:
  "add_counter opts idStr file =
     (shortHash (idStr @ '':'' @ decimal (get_count file (opts ''counterKey''))) (idLength_of opts),
      file\<lparr>counters := (counters file)(opts ''counterKey'' \<mapsto> js_succ (get_count file (opts ''counterKey'')))\<rparr>)"
  by (simp add: add_counter_def Let_def)

lemma cached_Some: "cached file = Some s \<longleftrightarrow> id_string file = Some s \<and> s \<noteq> []"
  by (auto simp: cached_def split: option.splits if_splits)

lemma effective_on_success:
  assumes "conformOptions env h options = (h', Inr a)"
  shows "(h' ! a) ''counterKey'' = effective_counterKey h options"
    and "idLength_of (h' ! a) = effective_idLength h options"
    and "0 < effective_idLength h options"
proof -
  from conformOptions_Inr(3,4) [OF assms]
  show "(h' ! a) ''counterKey'' = effective_counterKey h options"
    by (simp add: effective_counterKey_def)
  from conformOptions_Inr(5) [OF assms] obtain n where
    n: "0 < n" "(h' ! a) ''idLength'' = JNum (Integer n)"
       "if supplied h options ''idLength'' = JUndefined then n = DEFAULT_ID_LEN
        else supplied h options ''idLength'' = JNum (Integer n)"
    by blast
  then have e: "effective_idLength h options = n"
    by (auto simp: effective_idLength_def split: if_splits)
  show "idLength_of (h' ! a) = effective_idLength h options"
    by (simp add: e idLength_of_def n(2))
  show "0 < effective_idLength h options"
    by (simp add: e n(1))
qed

lemma createId_Inr:
  assumes "createId env h file options = Some (Inr token, h', file')"
  shows "\<exists>idStr. idStr \<noteq> [] \<and> (cached file = None \<or> cached file = Some idStr) \<and>
     token = shortHash (idStr @ '':'' @ decimal (get_count file (effective_counterKey h options)))
               (effective_idLength h options) \<and>
     file' = file\<lparr>id_string := Some idStr,
                  counters := (counters file)(effective_counterKey h options \<mapsto>
                                js_succ (get_count file (effective_counterKey h options)))\<rparr>"
proof -
  obtain h1 r where c: "conformOptions env h options = (h1, r)"
    by (cases "conformOptions env h options")
  with assms obtain a where r: "r = Inr a"
    by (cases r) (auto simp: createId_def)
  note eff = effective_on_success [OF c [unfolded r]]
  show ?thesis
  proof (cases "cached file")
    case (Some idStr)
    then have i: "id_string file = Some idStr" "idStr \<noteq> []"
      by (simp_all add: cached_Some)
    from assms c r Some have
      "token = shortHash (idStr @ '':'' @ decimal (get_count file (effective_counterKey h options)))
               (effective_idLength h options)"
      "file' = file\<lparr>counters := (counters file)(effective_counterKey h options \<mapsto>
                                js_succ (get_count file (effective_counterKey h options)))\<rparr>"
      by (simp_all add: createId_def add_counter_eq eff)
    moreover have "file\<lparr>id_string := Some idStr\<rparr> = file"
      using i(1) by (cases "file") simp
    ultimately show ?thesis
      using Some i(2) by (metis)
  next
    case None
    let ?found = "case filename file of
                    None \<Rightarrow> Some (Inr None)
                  | Some filePath \<Rightarrow>
                      if filePath \<noteq> []
                      then getIdStrFromPath env filePath (h1 ! a) (invariant_of (h1 ! a))
                      else Some (Inr None)"
    from assms c r None obtain found where f: "?found = Some (Inr found)"
      by (cases ?found rule: option.exhaust; cases "the ?found")
         (auto simp: createId_def Let_def split: prod.splits)
    define idStr where "idStr = (case found of
        Some s \<Rightarrow> if s \<noteq> [] then s else ''code:'' @ sha256Hash (code file)
      | None \<Rightarrow> ''code:'' @ sha256Hash (code file))"
    have ne: "idStr \<noteq> []"
      by (simp add: idStr_def split: option.splits)
    from assms c r None f have
      "token = shortHash (idStr @ '':'' @ decimal (get_count file (effective_counterKey h options)))
               (effective_idLength h options)"
      "file' = file\<lparr>id_string := Some idStr,
                  counters := (counters file)(effective_counterKey h options \<mapsto>
                                js_succ (get_count file (effective_counterKey h options)))\<rparr>"
      by (simp_all add: createId_def Let_def add_counter_eq eff idStr_def get_count_def)
    with ne None show ?thesis
      by blast
  qed
qed

lemma createId_frame:
  assumes "createId env h file options = Some (r, h', file')"
  shows "length h' = Suc (length h) \<and> (\<forall>i<length h. h' ! i = h ! i)"
proof -
  obtain h1 r1 where c: "conformOptions env h options = (h1, r1)"
    by (cases "conformOptions env h options")
  from assms c have "h' = h1"
    by (cases r1)
       (auto simp: createId_def Let_def add_counter_eq split: option.splits sum.splits if_splits)
  with conformOptions_frame [OF c] show ?thesis
    by simp
qed

lemmas demo_defs = demo_def demo_files_def demo_parse_def posix_dirname_def posix_join_def
  posix_relative_def manifest_def module_only_def quoted_def no_options_def file0_def file_index_def

lemmas conform_defs = conformOptions_def stages_def stage_pluginName_def stage_strings_def
  stage_rootPath_def stage_isPackage_def stage_pairing_def stage_idLength_def stage_counterKey_def
  spread_def null_to_undefined_def get_prop_def set_prop_def invariant_got_def invariant_of_def
  make_invariant_def tinyInvariant_def DEFAULT_ID_LEN_def Let_def

lemmas create_defs = createId_def cached_def add_counter_def get_count_def js_succ_def idLength_of_def
  getIdStrFromPath_def validatePackage_def id_of_def posix_style_def readPackageJson_def
  token_of_def thrown_def session_of_def heap_of_def decimal.simps digit_def

lemma early_preserves:
  assumes "set pre \<subseteq> set (early env)"
    and "k \<notin> {''invariant'', ''rootPath'', ''isPackage''}"
    and "s \<in> set pre" "a < length h \<and> get_prop h a k = v" "s h a = (h', None)"
  shows "a < length h' \<and> get_prop h' a k = v"
  using early_keeps [of s env a h h' None k] assms by auto

lemma idLength_stage_reached:
  assumes "supplied h options ''idLength'' \<noteq> JUndefined"
    and "\<not> isPositiveInteger (supplied h options ''idLength'')"
  shows "\<exists>h' e. conformOptions env h options = (h', Inl e)"
proof (rule conformOptions_fails)
  let ?a = "length h"
  let ?Q = "\<lambda>h1. ?a < length h1 \<and> get_prop h1 ?a ''idLength'' = supplied h options ''idLength''"
  have "\<exists>h' e. run_stages (early env @ stage_idLength # [stage_counterKey]) (copied h options) ?a
          = (h', Some e)"
  proof (rule run_stages_fails [where Q = ?Q])
    show "?Q (copied h options)"
      by (simp add: length_copied get_prop_copied)
  next
    fix s h1 h2
    assume "s \<in> set (early env)" "?Q h1" "s h1 ?a = (h2, None)"
    then show "?Q h2"
      using early_preserves [of "early env" env "''idLength''" s ?a h1 _ h2] by simp
  next
    fix h1
    assume "?Q h1"
    then show "\<exists>h' e. stage_idLength h1 ?a = (h', Some e)"
      using assms by (intro stage_idLength_Some) simp_all
  qed
  then show "\<exists>h' e. run_stages (stages env) (copied h options) ?a = (h', Some e)"
    by (simp add: stages_split)
qed

lemma counterKey_stage_reached:
  assumes "supplied h options ''counterKey'' \<noteq> JUndefined"
  shows "\<exists>h' e. conformOptions env h options = (h', Inl e)"
proof -
  obtain h' r where c: "conformOptions env h options = (h', r)"
    by (cases "conformOptions env h options")
  show ?thesis
  proof (cases r)
    case (Inl e)
    with c show ?thesis by blast
  next
    case (Inr a)
    with conformOptions_Inr(3) [of env h options h' a] c assms show ?thesis
      by simp
  qed
qed

lemma pairing_stage_reached:
  assumes "truthy (supplied h options ''packageName'') \<noteq> truthy (supplied h options ''packageVersion'')"
  shows "\<exists>h' e. conformOptions env h options = (h', Inl e)"
proof (rule conformOptions_fails)
  let ?a = "length h"
  let ?pre = "[stage_pluginName, stage_strings, stage_rootPath (pathSeparator env), stage_isPackage]"
  let ?Q = "\<lambda>h1. (?a < length h1 \<and> get_prop h1 ?a ''packageName'' = supplied h options ''packageName'')
                \<and> (?a < length h1 \<and> get_prop h1 ?a ''packageVersion'' = supplied h options ''packageVersion'')"
  have sub: "set ?pre \<subseteq> set (early env)"
    by (simp add: early_def)
  have "\<exists>h' e. run_stages (?pre @ stage_pairing # [stage_idLength, stage_counterKey])
            (copied h options) ?a = (h', Some e)"
  proof (rule run_stages_fails [where Q = ?Q])
    show "?Q (copied h options)"
      by (simp add: length_copied get_prop_copied)
  next
    fix s h1 h2
    assume s: "s \<in> set ?pre" and q: "?Q h1" and r: "s h1 ?a = (h2, None)"
    have "?a < length h2 \<and> get_prop h2 ?a ''packageName'' = supplied h options ''packageName''"
      using q by (intro early_preserves [OF sub _ s _ r]) simp_all
    moreover have "?a < length h2 \<and> get_prop h2 ?a ''packageVersion'' = supplied h options ''packageVersion''"
      using q by (intro early_preserves [OF sub _ s _ r]) simp_all
    ultimately show "?Q h2" by simp
  next
    fix h1
    assume "?Q h1"
    then show "\<exists>h' e. stage_pairing h1 ?a = (h', Some e)"
      using assms by (intro stage_pairing_Some) simp
  qed
  then show "\<exists>h' e. run_stages (stages env) (copied h options) ?a = (h', Some e)"
    by (simp add: stages_def)
qed

lemma strings_stage_reached:
  assumes "opt \<in> {''rootPath'', ''packageName'', ''packageVersion''}"
    and "supplied h options opt \<noteq> JUndefined" "\<not> isFullString (supplied h options opt)"
  shows "\<exists>h' e. conformOptions env h options = (h', Inl e)"
proof (rule conformOptions_fails)
  let ?a = "length h"
  let ?Q = "\<lambda>h1. ?a < length h1 \<and> get_prop h1 ?a opt = supplied h options opt"
  have k: "opt \<noteq> ''invariant''"
    using assms(1) by auto
  have "\<exists>h' e. run_stages ([stage_pluginName] @ stage_strings #
            [stage_rootPath (pathSeparator env), stage_isPackage, stage_pairing, stage_idLength,
             stage_counterKey]) (copied h options) ?a = (h', Some e)"
  proof (rule run_stages_fails [where Q = ?Q])
    show "?Q (copied h options)"
      by (simp add: length_copied get_prop_copied)
  next
    fix s h1 h2
    assume "s \<in> set [stage_pluginName]" and q: "?Q h1" and "s h1 ?a = (h2, None)"
    then have r: "stage_pluginName h1 ?a = (h2, None)"
      by simp
    from q have "touches {''invariant''} ?a h1 (fst (stage_pluginName h1 ?a))"
      by (intro stage_pluginName_touches) simp
    with r q k show "?Q h2"
      by (simp add: touches_def)
  next
    fix h1
    assume "?Q h1"
    then show "\<exists>h' e. stage_strings h1 ?a = (h', Some e)"
      using assms by (intro stage_strings_Some [of opt]) simp_all
  qed
  then show "\<exists>h' e. run_stages (stages env) (copied h options) ?a = (h', Some e)"
    by (simp add: stages_def)
qed

lemma isFullString_truthy: "isFullString v \<Longrightarrow> truthy v"
  by (cases v) simp_all

section \<open>What the older copy does\<close>

text \<open>
  The older \<open>createId\<close> counts under any truthy key, so also under a Symbol; it takes
  \<open>idLength = 0\<close> for the default 8; and it has the same slip in the \<open>rootPath\<close>
  branch of \<open>getIdStrFromPath\<close>.
\<close>

lemmas legacy_defs = createId_legacy_def legacy_trim_def legacy_idLength_def legacy_counterKey_def
  legacy_errorPrefix_def legacy_count_def legacy_getIdStrFromPath_def legacy_validatePackage_def
  no_legacy_options_def js_string_def

lemma legacy_counter_appended_then_incremented:
  assumes "createId_legacy env file options = Some (Inr token, file')"
  defines "opts \<equiv> legacy_trim (pathSeparator env)
                    (case options of None \<Rightarrow> no_legacy_options | Some given \<Rightarrow> given)"
  shows "\<exists>idStr. id_string file' = Some idStr \<and>
     token = shortHash (idStr @ '':'' @ decimal (get_count file (legacy_counterKey opts)))
               (legacy_idLength opts) \<and>
     counters file' = (counters file)(legacy_counterKey opts \<mapsto>
                        js_succ (get_count file (legacy_counterKey opts)))"
proof (cases "cached file")
  case (Some idStr)
  then have "id_string file = Some idStr"
    by (simp add: cached_Some)
  with assms(1) Some show ?thesis
    by (auto simp: createId_legacy_def legacy_count_def Let_def opts_def)
next
  case None
  with assms(1) show ?thesis
    by (auto simp: createId_legacy_def legacy_count_def get_count_def Let_def opts_def
        split: option.splits sum.splits if_splits)
qed

lemma legacy_symbol_counterKey_counts:
  "createId_legacy env file0 (Some (no_legacy_options\<lparr>counterKey_opt := JSym (UserSymbol 7)\<rparr>))
     = Some (Inr (shortHash (''code:'' @ sha256Hash ''foo();'' @ '':0'') 8),
             file0\<lparr>id_string := Some (''code:'' @ sha256Hash ''foo();''),
                   counters := (counters file0)(JSym (UserSymbol 7) \<mapsto> 1)\<rparr>)"
  by (simp add: legacy_defs file0_def create_defs DEFAULT_ID_LEN_def Let_def)

lemma legacy_idLength_zero_is_default:
  "map_option fst (createId_legacy env file0 (Some (no_legacy_options\<lparr>idLength_opt := Some 0\<rparr>)))
     = Some (Inr (shortHash (''code:'' @ sha256Hash ''foo();'' @ '':0'') 8))"
  by (simp add: legacy_defs file0_def create_defs DEFAULT_ID_LEN_def Let_def)

lemma legacy_rootPath_package_identity_repeats_name:
  "map_option (id_string \<circ> snd) (createId_legacy demo file_index
       (Some (no_legacy_options\<lparr>rootPath_opt := Some ''/app'', isPackage_opt := True\<rparr>)))
     = Some (Some ''package:pkg@pkg:lib/index.js'')"
  by (simp add: legacy_defs demo_defs create_defs DEFAULT_ID_LEN_def tinyInvariant_def Let_def)

section \<open>The claims\<close>

text \<open>
  Claim C2, as amended.  The length check of \<open>conformOptions\<close> is
  \<open>isPositiveInteger\<close> and nothing else: whenever \<open>idLength\<close> is supplied (neither
  undefined nor null) and is not a positive integer, \<open>createId\<close> throws, returns no token
  and leaves the session as it was.  No upper bound is checked.
\<close>

theorem idLength_must_be_positive_integer:
  assumes "supplied h options ''idLength'' \<noteq> JUndefined"
    and "\<not> isPositiveInteger (supplied h options ''idLength'')"
  shows "\<exists>e h'. createId env h file options = Some (Inl e, h', file)"
proof -
  from idLength_stage_reached [OF assms] obtain h' e where
    "conformOptions env h options = (h', Inl e)"
    by blast
  then have "createId env h file options = Some (Inl e, h', file)"
    by (rule createId_fails)
  then show ?thesis
    by blast
qed

theorem idLength_must_be_positive_integer_witness:
  "supplied [no_options(''idLength'' := JNum (Integer 0))] (Some 0) ''idLength'' \<noteq> JUndefined \<and>
   \<not> isPositiveInteger (supplied [no_options(''idLength'' := JNum (Integer 0))] (Some 0) ''idLength'') \<and>
   (\<exists>e h'. createId demo [no_options(''idLength'' := JNum (Integer 0))] file0 (Some 0)
              = Some (Inl e, h', file0))"
proof -
  have 1: "supplied [no_options(''idLength'' := JNum (Integer 0))] (Some 0) ''idLength'' \<noteq> JUndefined"
    by (simp add: supplied_def spread_def null_to_undefined_def no_options_def)
  have 2: "\<not> isPositiveInteger (supplied [no_options(''idLength'' := JNum (Integer 0))] (Some 0) ''idLength'')"
    by (simp add: supplied_def spread_def null_to_undefined_def no_options_def)
  from idLength_must_be_positive_integer [OF 1 2, of demo file0] 1 2 show ?thesis
    by blast
qed

text \<open>
  Claim C2 as stated fails: with \<open>idLength = 42\<close>, outside 1..41, \<open>createId\<close> raises
  nothing and returns the short hash cut at 42 characters.
\<close>

theorem idLength_42_accepted:
  "token_of (createId demo [no_options(''idLength'' := JNum (Integer 42))] file0 (Some 0))
     = Some (shortHash (''code:'' @ sha256Hash ''foo();'' @ '':0'') 42)"
  by (simp add: demo_defs conform_defs create_defs)

text \<open>
  Claim C8.  When exactly one of \<open>packageName\<close> and \<open>packageVersion\<close> is supplied
  (the other being absent, that is undefined or null), \<open>createId\<close> throws and returns no
  token; the session is left as it was.
\<close>

theorem packageName_packageVersion_paired:
  assumes "(supplied h options ''packageName'' = JUndefined)
             \<noteq> (supplied h options ''packageVersion'' = JUndefined)"
  shows "\<exists>e h'. createId env h file options = Some (Inl e, h', file)"
proof -
  let ?N = "supplied h options ''packageName''"
  let ?V = "supplied h options ''packageVersion''"
  have "\<exists>h' e. conformOptions env h options = (h', Inl e)"
  proof (cases "?N = JUndefined")
    case True
    with assms have v: "?V \<noteq> JUndefined"
      by simp
    show ?thesis
    proof (cases "isFullString ?V")
      case True
      then have "truthy ?V"
        by (rule isFullString_truthy)
      with \<open>?N = JUndefined\<close> have "truthy ?N \<noteq> truthy ?V"
        by simp
      then show ?thesis
        by (rule pairing_stage_reached)
    next
      case False
      with v show ?thesis
        by (intro strings_stage_reached [of "''packageVersion''"]) simp_all
    qed
  next
    case False
    with assms have v: "?V = JUndefined"
      by simp
    show ?thesis
    proof (cases "isFullString ?N")
      case True
      then have "truthy ?N"
        by (rule isFullString_truthy)
      with v have "truthy ?N \<noteq> truthy ?V"
        by simp
      then show ?thesis
        by (rule pairing_stage_reached)
    next
      case nf: False
      with False show ?thesis
        by (intro strings_stage_reached [of "''packageName''"]) simp_all
    qed
  qed
  then obtain h' e where "conformOptions env h options = (h', Inl e)"
    by blast
  then have "createId env h file options = Some (Inl e, h', file)"
    by (rule createId_fails)
  then show ?thesis
    by blast
qed

theorem packageName_packageVersion_paired_witness:
  "(supplied [no_options(''packageName'' := JStr ''pkg'')] (Some 0) ''packageName'' = JUndefined)
     \<noteq> (supplied [no_options(''packageName'' := JStr ''pkg'')] (Some 0) ''packageVersion'' = JUndefined) \<and>
   thrown (createId demo [no_options(''packageName'' := JStr ''pkg'')] file0 (Some 0)) =
     Some (InvariantFailed
       ''`packageName` and `packageVersion` options must either be both provided or both omitted'')"
proof -
  have 1: "(supplied [no_options(''packageName'' := JStr ''pkg'')] (Some 0) ''packageName'' = JUndefined)
     \<noteq> (supplied [no_options(''packageName'' := JStr ''pkg'')] (Some 0) ''packageVersion'' = JUndefined)"
    by (simp add: supplied_def spread_def null_to_undefined_def no_options_def)
  from packageName_packageVersion_paired [OF 1, of demo file0] obtain e h' where
    "createId demo [no_options(''packageName'' := JStr ''pkg'')] file0 (Some 0) = Some (Inl e, h', file0)"
    by blast
  moreover have "thrown (createId demo [no_options(''packageName'' := JStr ''pkg'')] file0 (Some 0)) =
     Some (InvariantFailed
       ''`packageName` and `packageVersion` options must either be both provided or both omitted'')"
    by (simp add: demo_defs conform_defs create_defs)
  ultimately show ?thesis
    using 1 by blast
qed

text \<open>
  Claim C9.  \<open>createId\<close> never writes to the caller's options object: every object that
  was in the store before the call, the options object among them, is the same after it,
  whether the call returns a token or throws.  Normalisation works on a fresh copy, which is
  the one new object of the store.
\<close>

theorem options_object_unchanged:
  assumes "createId env h file options = Some (r, h', file')"
  shows "length h' = Suc (length h) \<and> (\<forall>a<length h. h' ! a = h ! a)"
  using assms by (rule createId_frame)

theorem options_object_unchanged_witness:
  "\<exists>r h' file'.
     createId demo [no_options(''rootPath'' := JStr ''/app/'', ''pluginName'' := JNull)] file_index (Some 0)
       = Some (r, h', file') \<and>
     h' ! 0 = no_options(''rootPath'' := JStr ''/app/'', ''pluginName'' := JNull) \<and>
     get_prop h' 1 ''rootPath'' = JStr ''/app'' \<and> get_prop h' 1 ''pluginName'' = JUndefined"
proof -
  let ?h = "[no_options(''rootPath'' := JStr ''/app/'', ''pluginName'' := JNull)]"
  have "\<exists>r h' file'. createId demo ?h file_index (Some 0) = Some (r, h', file')
          \<and> get_prop h' 1 ''rootPath'' = JStr ''/app'' \<and> get_prop h' 1 ''pluginName'' = JUndefined"
    by (simp add: demo_defs conform_defs create_defs)
  then obtain r h' file' where ev: "createId demo ?h file_index (Some 0) = Some (r, h', file')"
    and cp: "get_prop h' 1 ''rootPath'' = JStr ''/app''" "get_prop h' 1 ''pluginName'' = JUndefined"
    by blast
  from options_object_unchanged [OF ev] have "h' ! 0 = ?h ! 0"
    by simp
  with ev cp show ?thesis
    by auto
qed

text \<open>
  Claim C10, the code at its failing input.  A counterKey that is a Symbol passes
  \<open>isSymbol\<close>, but the message of that very check is a template literal holding the key,
  built before \<open>invariant\<close> is called, and converting a Symbol to a string throws: the call
  ends in a TypeError for every Symbol.  A counterKey of another type is refused with the
  message that names \<open>options.pluginName\<close>.
\<close>

theorem symbol_counterKey_throws:
  "thrown (createId env [no_options(''counterKey'' := JSym s)] file (Some 0))
     = Some (TypeError ''Cannot convert a Symbol value to a string'') \<and>
   thrown (createId env [no_options(''counterKey'' := JStr ''k'')] file (Some 0))
     = Some (InvariantFailed ''options.pluginName must be a Symbol if provided - got k'')"
  by (simp add: no_options_def conform_defs create_defs)

text \<open>
  Claim C1, the code at its failing input.  With \<open>rootPath = /app\<close>, \<open>isPackage\<close> set and
  no \<open>packageName\<close>, the descriptor at the root gives name \<open>pkg\<close> and version \<open>1.0.0\<close>,
  yet the identity string stored for the file is \<open>package:pkg@pkg:lib/index.js\<close>: the
  name stands where the version belongs.
\<close>

theorem rootPath_package_identity_repeats_name:
  "readPackageJson demo ''/app'' =
     Inr (Some \<lparr>props_name = JStr ''pkg'', props_version = JStr ''1.0.0'', props_path = ''/app'',
                props_pkgPath = ''/app/package.json''\<rparr>) \<and>
   map_option id_string (session_of (createId demo
       [no_options(''rootPath'' := JStr ''/app'', ''isPackage'' := JBool True)] file_index (Some 0)))
     = Some (Some ''package:pkg@pkg:lib/index.js'') \<and>
   token_of (createId demo
       [no_options(''rootPath'' := JStr ''/app'', ''isPackage'' := JBool True)] file_index (Some 0))
     = Some (shortHash ''package:pkg@pkg:lib/index.js:0'' 8)"
  by (simp add: demo_defs conform_defs create_defs)

lemma createId_Inr_conforms:
  assumes "createId env h file options = Some (Inr token, h', file')"
  shows "\<exists>a. conformOptions env h options = (h', Inr a)"
proof -
  obtain h1 r where c: "conformOptions env h options = (h1, r)"
    by (cases "conformOptions env h options")
  from createId_frame [OF assms] conformOptions_frame [OF c] have "length h1 = length h'"
    by simp
  from assms c obtain a where r: "r = Inr a"
    by (cases r) (auto simp: createId_def)
  from assms c r have "h' = h1"
    by (auto simp: createId_def Let_def add_counter_eq split: option.splits sum.splits if_splits)
  with c r show ?thesis
    by blast
qed

lemma createId_Inr_idLength:
  assumes "createId env h file options = Some (Inr token, h', file')"
  shows "0 < effective_idLength h options"
  using createId_Inr_conforms [OF assms] effective_on_success(3) by blast

lemma letters_not_digits:
  "c \<in> set ''ABCDEFGHIJKLMNOPQRSTUVWXYZabcdef'' \<Longrightarrow> c \<notin> digit_chars"
  by (auto simp: digit_chars_def)

text \<open>
  Claim C4.  For every input string and every length from 1 to 41, \<open>shortHash\<close> returns
  exactly that many characters, all of them among \<open>A-Z a-z 0-9 _ $\<close>, the first one not a
  digit; and so does every token \<open>createId\<close> returns when the effective \<open>idLength\<close> is at
  most 41.
\<close>

theorem token_is_identifier:
  "(1 \<le> len \<and> len \<le> 41 \<longrightarrow>
      length (shortHash str len) = nat len \<and> set (shortHash str len) \<subseteq> ident_chars \<and>
      hd (shortHash str len) \<notin> digit_chars) \<and>
   (createId env h file options = Some (Inr token, h', file') \<and> effective_idLength h options \<le> 41 \<longrightarrow>
      length token = nat (effective_idLength h options) \<and> set token \<subseteq> ident_chars \<and>
      hd token \<notin> digit_chars)"
proof (rule conjI; rule impI)
  assume "1 \<le> len \<and> len \<le> 41"
  then have l: "1 \<le> len" "len \<le> 43"
    by simp_all
  from shortHash_shape [OF l, of str] letters_not_digits
  show "length (shortHash str len) = nat len \<and> set (shortHash str len) \<subseteq> ident_chars \<and>
      hd (shortHash str len) \<notin> digit_chars"
    by blast
next
  assume a: "createId env h file options = Some (Inr token, h', file') \<and> effective_idLength h options \<le> 41"
  then have l: "1 \<le> effective_idLength h options" "effective_idLength h options \<le> 43"
    using createId_Inr_idLength [of env h "file" options token h' file'] by simp_all
  from a createId_Inr [of env h "file" options token h' file'] obtain idStr where
    "token = shortHash (idStr @ '':'' @ decimal (get_count file (effective_counterKey h options)))
               (effective_idLength h options)"
    by blast
  with shortHash_shape [OF l] letters_not_digits
  show "length token = nat (effective_idLength h options) \<and> set token \<subseteq> ident_chars \<and>
      hd token \<notin> digit_chars"
    by blast
qed

theorem token_is_identifier_witness:
  "(1 \<le> (8::int) \<and> (8::int) \<le> 41 \<and>
      length (shortHash ''path:test/foo.js:0'' 8) = 8 \<and>
      set (shortHash ''path:test/foo.js:0'' 8) \<subseteq> ident_chars \<and>
      hd (shortHash ''path:test/foo.js:0'' 8) \<notin> digit_chars) \<and>
   (\<exists>token h' file'. createId demo [] file0 None = Some (Inr token, h', file') \<and>
      effective_idLength [] None \<le> 41 \<and>
      length token = 8 \<and> set token \<subseteq> ident_chars \<and> hd token \<notin> digit_chars)"
proof -
  have "\<exists>token h' file'. createId demo [] file0 None = Some (Inr token, h', file')"
    by (simp add: demo_defs conform_defs create_defs)
  then obtain token h' file' where ev: "createId demo [] file0 None = Some (Inr token, h', file')"
    by blast
  have e: "effective_idLength [] None = 8"
    by (simp add: effective_idLength_def supplied_def spread_def null_to_undefined_def DEFAULT_ID_LEN_def)
  from token_is_identifier [of 8 "''path:test/foo.js:0''" demo "[]" file0 None token h' file'] ev e
  show ?thesis
    by auto
qed

lemma frame_supplied:
  assumes "valid_ref h options" "length h' = Suc (length h)" "\<forall>i<length h. h' ! i = h ! i"
  shows "valid_ref h' options" and "supplied h' options = supplied h options"
proof -
  show "valid_ref h' options"
    using assms by (auto simp: valid_ref_def split: option.splits)
  have "spread h' options = spread h options"
    using assms by (auto simp: valid_ref_def spread_def split: option.splits)
  then have "supplied h' options k = supplied h options k" for k
    by (simp add: supplied_def)
  then show "supplied h' options = supplied h options"
    by (rule ext)
qed

lemma frame_effective:
  assumes "valid_ref h options" "length h' = Suc (length h)" "\<forall>i<length h. h' ! i = h ! i"
  shows "effective_counterKey h' options = effective_counterKey h options"
    and "effective_idLength h' options = effective_idLength h options"
  using frame_supplied(2) [OF assms]
  by (simp_all add: effective_counterKey_def effective_idLength_def)

lemma createId_times_Suc:
  assumes "createId_times (Suc n) env h file options = Some (Inr token, h', file')"
  shows "\<exists>t1 h1 f1. createId env h file options = Some (Inr t1, h1, f1) \<and>
           createId_times n env h1 f1 options = Some (Inr token, h', file')"
proof (cases "createId env h file options")
  case None
  with assms show ?thesis by simp
next
  case (Some x)
  obtain r h1 f1 where x: "x = (r, h1, f1)"
    by (cases x)
  show ?thesis
  proof (cases r)
    case (Inl e)
    with assms Some x show ?thesis by simp
  next
    case (Inr t1)
    with assms Some x show ?thesis by simp
  qed
qed









lemma findPackageRoot_at_root:
  "dirname env p = p \<Longrightarrow> findPackageRoot env p = Some (Inr None)"
  by (subst findPackageRoot.simps) simp

lemma findPackageRoot_step:
  "dirname env p \<noteq> p \<Longrightarrow>
     findPackageRoot env p =
       (case readPackageJson env (dirname env p) of
          Inl e \<Rightarrow> Some (Inl e)
        | Inr (Some props) \<Rightarrow> Some (Inr (Some props))
        | Inr None \<Rightarrow> findPackageRoot env (dirname env p))"
  by (subst findPackageRoot.simps) (simp add: Let_def)

lemma unnamed_or_missing_skipped:
  "unnamed_or_missing env dir \<Longrightarrow> readPackageJson env dir = Inr None"
  by (auto simp: unnamed_or_missing_def readPackageJson_def Let_def
      split: sum.splits option.splits json.splits)

lemma ancestor_Suc: "ancestor env p (Suc k) = dirname env (ancestor env p k)"
  by (simp add: ancestor_def)

lemma skipped_levels:
  assumes "\<forall>i<k. ancestor env p (Suc i) \<noteq> ancestor env p i \<and>
                 unnamed_or_missing env (ancestor env p (Suc i))"
  shows "findPackageRoot env p = findPackageRoot env (ancestor env p k)"
  using assms
proof (induction k)
  case 0
  show ?case
    by (simp add: ancestor_def)
next
  case (Suc k)
  then have up: "findPackageRoot env p = findPackageRoot env (ancestor env p k)"
    by simp
  from Suc.prems have ne: "dirname env (ancestor env p k) \<noteq> ancestor env p k"
    and sk: "unnamed_or_missing env (dirname env (ancestor env p k))"
    by (simp_all add: ancestor_Suc)
  have "findPackageRoot env (ancestor env p k) = findPackageRoot env (dirname env (ancestor env p k))"
    by (simp add: findPackageRoot_step [OF ne] unnamed_or_missing_skipped [OF sk])
  with up show ?case
    by (simp add: ancestor_Suc)
qed

text \<open>
  Claim C7.  Suppose that at each of the first \<open>k\<close> ancestor directories of the file the
  parent differs from the directory and reading \<open>package.json\<close> there either fails with
  ENOENT or gives a descriptor without a truthy \<open>name\<close>.  Then the search goes on from the
  \<open>k\<close>-th ancestor \<open>d\<close>: if \<open>d\<close> is its own parent the result is absent; if reading the
  descriptor of the parent of \<open>d\<close> fails with another code that error is thrown; if its
  text does not parse a SyntaxError is thrown; if it holds a descriptor with a name, that
  descriptor is the result.
\<close>

theorem findPackageRoot_walk:
  assumes "\<forall>i<k. ancestor env p (Suc i) \<noteq> ancestor env p i \<and>
                 unnamed_or_missing env (ancestor env p (Suc i))"
  shows
    "(dirname env (ancestor env p k) = ancestor env p k \<longrightarrow>
        findPackageRoot env p = Some (Inr None)) \<and>
     (dirname env (ancestor env p k) \<noteq> ancestor env p k \<and>
      readFileSync env (pathJoin env (dirname env (ancestor env p k)) ''package.json'') = Inl errcode \<and>
      errcode \<noteq> ''ENOENT'' \<longrightarrow>
        findPackageRoot env p = Some (Inl (FsError errcode))) \<and>
     (dirname env (ancestor env p k) \<noteq> ancestor env p k \<and>
      readFileSync env (pathJoin env (dirname env (ancestor env p k)) ''package.json'') = Inr pkgStr \<and>
      JSON_parse env pkgStr = None \<longrightarrow>
        findPackageRoot env p = Some (Inl SyntaxError)) \<and>
     (dirname env (ancestor env p k) \<noteq> ancestor env p k \<and>
      readPackageJson env (dirname env (ancestor env p k)) = Inr (Some props) \<longrightarrow>
        findPackageRoot env p = Some (Inr (Some props)))"
proof -
  let ?d = "ancestor env p k"
  have up: "findPackageRoot env p = findPackageRoot env ?d"
    using assms by (rule skipped_levels)
  have 1: "dirname env ?d = ?d \<longrightarrow> findPackageRoot env p = Some (Inr None)"
    by (simp add: up findPackageRoot_at_root)
  have 2: "dirname env ?d \<noteq> ?d \<and>
      readFileSync env (pathJoin env (dirname env ?d) ''package.json'') = Inl errcode \<and>
      errcode \<noteq> ''ENOENT'' \<longrightarrow> findPackageRoot env p = Some (Inl (FsError errcode))"
    by (simp add: up findPackageRoot_step readPackageJson_def Let_def)
  have 3: "dirname env ?d \<noteq> ?d \<and>
      readFileSync env (pathJoin env (dirname env ?d) ''package.json'') = Inr pkgStr \<and>
      JSON_parse env pkgStr = None \<longrightarrow> findPackageRoot env p = Some (Inl SyntaxError)"
    by (simp add: up findPackageRoot_step readPackageJson_def Let_def)
  have 4: "dirname env ?d \<noteq> ?d \<and> readPackageJson env (dirname env ?d) = Inr (Some props) \<longrightarrow>
      findPackageRoot env p = Some (Inr (Some props))"
    by (simp add: up findPackageRoot_step)
  from 1 2 3 4 show ?thesis
    by blast
qed

theorem findPackageRoot_walk_witness:
  "findPackageRoot demo ''/tmp/a.js'' = Some (Inr None) \<and>
   findPackageRoot demo ''/locked/x/a.js'' = Some (Inl (FsError ''EACCES'')) \<and>
   findPackageRoot demo ''/srv/x/a.js'' = Some (Inl SyntaxError) \<and>
   findPackageRoot demo ''/app/lib/index.js'' =
     Some (Inr (Some \<lparr>props_name = JStr ''pkg'', props_version = JStr ''1.0.0'', props_path = ''/app'',
                        props_pkgPath = ''/app/package.json''\<rparr>))"
proof -
  note ev = demo_defs ancestor_def unnamed_or_missing_def readPackageJson_def Let_def
    All_less_Suc
  have a: "\<forall>i<Suc (Suc 0). ancestor demo ''/tmp/a.js'' (Suc i) \<noteq> ancestor demo ''/tmp/a.js'' i \<and>
              unnamed_or_missing demo (ancestor demo ''/tmp/a.js'' (Suc i))"
    by (simp add: ev)
  have b: "\<forall>i<Suc 0. ancestor demo ''/locked/x/a.js'' (Suc i) \<noteq> ancestor demo ''/locked/x/a.js'' i \<and>
              unnamed_or_missing demo (ancestor demo ''/locked/x/a.js'' (Suc i))"
    by (simp add: ev)
  have c: "\<forall>i<Suc 0. ancestor demo ''/srv/x/a.js'' (Suc i) \<noteq> ancestor demo ''/srv/x/a.js'' i \<and>
              unnamed_or_missing demo (ancestor demo ''/srv/x/a.js'' (Suc i))"
    by (simp add: ev)
  have d: "\<forall>i<Suc 0. ancestor demo ''/app/lib/index.js'' (Suc i) \<noteq> ancestor demo ''/app/lib/index.js'' i \<and>
              unnamed_or_missing demo (ancestor demo ''/app/lib/index.js'' (Suc i))"
    by (simp add: ev)
  have 1: "findPackageRoot demo ''/tmp/a.js'' = Some (Inr None)"
    using findPackageRoot_walk [OF a] by (simp add: ev)
  have 2: "findPackageRoot demo ''/locked/x/a.js'' = Some (Inl (FsError ''EACCES''))"
    using findPackageRoot_walk [OF b, of "''EACCES''"] by (simp add: ev)
  have 3: "findPackageRoot demo ''/srv/x/a.js'' = Some (Inl SyntaxError)"
    using findPackageRoot_walk [OF c, of _ "''{''"] by (simp add: ev)
  have 4: "findPackageRoot demo ''/app/lib/index.js'' =
     Some (Inr (Some \<lparr>props_name = JStr ''pkg'', props_version = JStr ''1.0.0'', props_path = ''/app'',
                        props_pkgPath = ''/app/package.json''\<rparr>))"
    using findPackageRoot_walk [OF d, of _ _
        "\<lparr>props_name = JStr ''pkg'', props_version = JStr ''1.0.0'', props_path = ''/app'',
          props_pkgPath = ''/app/package.json''\<rparr>"]
    by (simp add: ev)
  from 1 2 3 4 show ?thesis
    by blast
qed

lemma ancestor_shift: "ancestor env (dirname env p) k = ancestor env p (Suc k)"
  by (simp add: ancestor_def funpow_swap1)

lemma findPackageRoot_returns:
  "dirname env (ancestor env p k) = ancestor env p k \<Longrightarrow> \<exists>r. findPackageRoot env p = Some r"
proof (induction k arbitrary: p)
  case 0
  then show ?case
    by (simp add: ancestor_def findPackageRoot_at_root)
next
  case (Suc k)
  show ?case
  proof (cases "dirname env p = p")
    case True
    then show ?thesis
      by (simp add: findPackageRoot_at_root)
  next
    case False
    have "dirname env (ancestor env (dirname env p) k) = ancestor env (dirname env p) k"
      using Suc.prems by (simp add: ancestor_shift ancestor_Suc)
    from Suc.IH [OF this] show ?thesis
      by (auto simp: findPackageRoot_step [OF False] split: sum.splits option.splits)
  qed
qed

lemma conformOptions_separator:
  "pathSeparator env2 = pathSeparator env \<Longrightarrow> conformOptions env2 h options = conformOptions env h options"
  by (simp add: conformOptions_def stages_def)

lemma createId_cached:
  assumes "cached file = Some s"
  shows "createId env h file options =
     (case conformOptions env h options of
        (h', Inl e) \<Rightarrow> Some (Inl e, h', file)
      | (h', Inr a) \<Rightarrow>
          Some (Inr (shortHash (s @ '':'' @ decimal (get_count file ((h' ! a) ''counterKey'')))
                       (idLength_of (h' ! a))),
                h',
                file\<lparr>counters := (counters file)((h' ! a) ''counterKey'' \<mapsto>
                                      js_succ (get_count file ((h' ! a) ''counterKey'')))\<rparr>))"
  using assms by (simp add: createId_def add_counter_eq Let_def split: prod.splits sum.splits)

text \<open>
  Claim C6.  A call that returns a token leaves a non-empty identity string in the session's
  slot: the string that was there, if there was one, and the very string whose short hash,
  with the counter appended, is the token returned.  From then on, whatever the options,
  the store and the platform: the call returns
  or throws without searching (it cannot run forever), the slot keeps the same string, a
  returned token is the short hash of that string followed by the counter, and the outcome
  is the same when the file system, \<open>JSON.parse\<close>, the path functions, the file's name
  and the file's code are all replaced: none of them is consulted.
\<close>

theorem identity_string_computed_once:
  "(createId env h file options = Some (Inr token, h', file') \<longrightarrow>
      (\<exists>s0. cached file' = Some s0 \<and> id_string file' = Some s0 \<and>
         (cached file = None \<or> cached file = Some s0) \<and>
         token = shortHash (s0 @ '':'' @ decimal (get_count file (effective_counterKey h options)))
                   (effective_idLength h options))) \<and>
   (cached file = Some s \<longrightarrow>
      (\<exists>r h1 file1.
         createId env h file options = Some (r, h1, file1) \<and> id_string file1 = Some s \<and>
         (\<forall>t. r = Inr t \<longrightarrow>
            t = shortHash (s @ '':'' @ decimal (get_count file (effective_counterKey h options)))
                  (effective_idLength h options)) \<and>
         createId (env\<lparr>readFileSync := rf, JSON_parse := jp, dirname := dn, pathJoin := pj,
                       pathRelative := pr\<rparr>) h (file\<lparr>filename := f, code := c\<rparr>) options
           = Some (r, h1, file1\<lparr>filename := f, code := c\<rparr>)))"
proof (rule conjI; rule impI)
  assume a: "createId env h file options = Some (Inr token, h', file')"
  from createId_Inr [OF a] obtain idStr where
    "idStr \<noteq> []" "id_string file' = Some idStr" "cached file = None \<or> cached file = Some idStr"
    "token = shortHash (idStr @ '':'' @ decimal (get_count file (effective_counterKey h options)))
               (effective_idLength h options)"
    by auto
  then show "\<exists>s0. cached file' = Some s0 \<and> id_string file' = Some s0 \<and>
         (cached file = None \<or> cached file = Some s0) \<and>
         token = shortHash (s0 @ '':'' @ decimal (get_count file (effective_counterKey h options)))
                   (effective_idLength h options)"
    by (simp add: cached_Some)
next
  assume s: "cached file = Some s"
  let ?env2 = "env\<lparr>readFileSync := rf, JSON_parse := jp, dirname := dn, pathJoin := pj,
                   pathRelative := pr\<rparr>"
  let ?file2 = "file\<lparr>filename := f, code := c\<rparr>"
  have s2: "cached ?file2 = Some s"
    using s by (simp add: cached_def)
  have c2: "conformOptions ?env2 h options = conformOptions env h options"
    by (rule conformOptions_separator) simp
  obtain h1 r1 where c: "conformOptions env h options = (h1, r1)"
    by (cases "conformOptions env h options")
  from s have i: "id_string file = Some s"
    by (simp add: cached_Some)
  show "\<exists>r h1 file1.
         createId env h file options = Some (r, h1, file1) \<and> id_string file1 = Some s \<and>
         (\<forall>t. r = Inr t \<longrightarrow>
            t = shortHash (s @ '':'' @ decimal (get_count file (effective_counterKey h options)))
                  (effective_idLength h options)) \<and>
         createId ?env2 h ?file2 options = Some (r, h1, file1\<lparr>filename := f, code := c\<rparr>)"
  proof (cases r1)
    case (Inl e)
    with c i show ?thesis
      by (simp add: createId_cached [OF s] createId_cached [OF s2] c2)
  next
    case (Inr a)
    note eff = effective_on_success(1,2) [OF c [unfolded Inr]]
    from c Inr i show ?thesis
      by (simp add: createId_cached [OF s] createId_cached [OF s2] c2 eff get_count_def)
  qed
qed

theorem identity_string_computed_once_witness:
  "(\<exists>token h' file' s. createId demo [] file0 None = Some (Inr token, h', file') \<and>
      cached file' = Some s \<and> token = shortHash (s @ '':0'') 8) \<and>
   cached (file_index\<lparr>id_string := Some ''path:lib/index.js''\<rparr>) = Some ''path:lib/index.js'' \<and>
   (\<exists>r h1 file1.
      createId demo [] (file_index\<lparr>id_string := Some ''path:lib/index.js''\<rparr>) None = Some (r, h1, file1) \<and>
      id_string file1 = Some ''path:lib/index.js'' \<and>
      r = Inr (shortHash ''path:lib/index.js:0'' 8) \<and>
      createId (demo\<lparr>readFileSync := (\<lambda>p. Inl ''EIO''), JSON_parse := (\<lambda>t. None),
                      dirname := (\<lambda>p. CHR ''x'' # p), pathJoin := (\<lambda>a b. b),
                      pathRelative := (\<lambda>a b. a)\<rparr>)
          [] (file_index\<lparr>id_string := Some ''path:lib/index.js'', filename := None, code := ''bar();''\<rparr>) None
        = Some (r, h1, file1\<lparr>filename := None, code := ''bar();''\<rparr>))"
proof -
  let ?g = "file_index\<lparr>id_string := Some ''path:lib/index.js''\<rparr>"
  have "\<exists>token h' file'. createId demo [] file0 None = Some (Inr token, h', file')"
    by (simp add: demo_defs conform_defs create_defs)
  then obtain token h' file' where ev: "createId demo [] file0 None = Some (Inr token, h', file')"
    by blast
  have k: "effective_counterKey [] None = JSym ID_COUNTER"
    by (simp add: effective_counterKey_def supplied_def spread_def null_to_undefined_def)
  have l: "effective_idLength [] None = 8"
    by (simp add: effective_idLength_def supplied_def spread_def null_to_undefined_def DEFAULT_ID_LEN_def)
  have d: "decimal 0 = ''0''"
    by (simp add: decimal.simps digit_def)
  have g0: "get_count file0 (JSym ID_COUNTER) = 0"
    by (simp add: get_count_def file0_def)
  from identity_string_computed_once [of demo "[]" file0 None token h' file'] ev
  obtain s0 where "cached file' = Some s0"
    "token = shortHash (s0 @ '':'' @ decimal (get_count file0 (JSym ID_COUNTER))) 8"
    unfolding k l by blast
  with ev have 1: "\<exists>token h' file' s. createId demo [] file0 None = Some (Inr token, h', file') \<and>
      cached file' = Some s \<and> token = shortHash (s @ '':0'') 8"
    by (simp add: g0 d)
  have 2: "cached ?g = Some ''path:lib/index.js''"
    by (simp add: cached_def file_index_def)
  have g: "get_count ?g (JSym ID_COUNTER) = 0"
    by (simp add: get_count_def file_index_def)
  have t: "\<exists>t. token_of (createId demo [] ?g None) = Some t"
    by (simp add: demo_defs conform_defs create_defs)
  from identity_string_computed_once [of demo "[]" ?g None _ _ _ "''path:lib/index.js''"
      "\<lambda>a b. a" "\<lambda>a b. b" "\<lambda>p. CHR ''x'' # p" "\<lambda>t. None" "\<lambda>p. Inl ''EIO''"
      "''bar();''" None] 2
  obtain r h1 file1 where
    a: "createId demo [] ?g None = Some (r, h1, file1)" and
    b: "id_string file1 = Some ''path:lib/index.js''" and
    c: "\<forall>t. r = Inr t \<longrightarrow> t = shortHash (''path:lib/index.js'' @ '':'' @ decimal (get_count ?g (JSym ID_COUNTER))) 8" and
    e: "createId (demo\<lparr>readFileSync := (\<lambda>p. Inl ''EIO''), JSON_parse := (\<lambda>t. None),
                      dirname := (\<lambda>p. CHR ''x'' # p), pathJoin := (\<lambda>a b. b),
                      pathRelative := (\<lambda>a b. a)\<rparr>)
          [] (?g\<lparr>filename := None, code := ''bar();''\<rparr>) None
        = Some (r, h1, file1\<lparr>filename := None, code := ''bar();''\<rparr>)"
    unfolding k l by blast
  from t a obtain tk where "r = Inr tk"
    by (cases r) (auto simp: token_of_def)
  with c have "r = Inr (shortHash ''path:lib/index.js:0'' 8)"
    by (simp add: g d)
  with 1 2 a b e show ?thesis
    by blast
qed

text \<open>
  Claim C3, as amended.  For a session without file path whose code is \<open>foo();\<close> and with
  no options (so \<open>idLength\<close> 8): the identity string is \<open>code:\<close> followed by the base64
  SHA-256 of the code; the first call hashes it with \<open>:0\<close> appended and returns
  \<open>AcQ5z4Sv\<close>; the second call hashes it with \<open>:1\<close> appended and returns \<open>Wr4qdHBd\<close>,
  another token.
\<close>

theorem fixture_tokens:
  "map_option id_string (session_of (createId env [] file0 None))
     = Some (Some ''code:qMVaiPhbudnaz91QqECVnbdTvKWnqeultnb/Nt/ybo8='') \<and>
   token_of (createId env [] file0 None)
     = Some (shortHash ''code:qMVaiPhbudnaz91QqECVnbdTvKWnqeultnb/Nt/ybo8=:0'' 8) \<and>
   shortHash ''code:qMVaiPhbudnaz91QqECVnbdTvKWnqeultnb/Nt/ybo8=:0'' 8 = ''AcQ5z4Sv'' \<and>
   token_of (createId_times (Suc 0) env [] file0 None)
     = Some (shortHash ''code:qMVaiPhbudnaz91QqECVnbdTvKWnqeultnb/Nt/ybo8=:1'' 8) \<and>
   shortHash ''code:qMVaiPhbudnaz91QqECVnbdTvKWnqeultnb/Nt/ybo8=:1'' 8 = ''Wr4qdHBd'' \<and>
   ''Wr4qdHBd'' \<noteq> ''AcQ5z4Sv''"
proof -
  have 1: "map_option id_string (session_of (createId env [] file0 None))
     = Some (Some (''code:'' @ sha256Hash ''foo();''))"
    by (simp add: file0_def conform_defs create_defs)
  have 2: "token_of (createId env [] file0 None)
     = Some (shortHash (''code:'' @ sha256Hash ''foo();'' @ '':0'') 8)"
    by (simp add: file0_def conform_defs create_defs)
  have 3: "token_of (createId_times (Suc 0) env [] file0 None)
     = Some (shortHash (''code:'' @ sha256Hash ''foo();'' @ '':1'') 8)"
    by (simp add: file0_def conform_defs create_defs)
  from 1 2 3 show ?thesis
    by (simp add: sha_foo tok0 tok1)
qed

text \<open>
  Claim C3 as stated fails in its second half: the second call on that session does not
  return \<open>CRLVr5wz\<close>.
\<close>

theorem second_fixture_token_differs:
  "token_of (createId_times (Suc 0) demo [] file0 None) \<noteq> Some ''CRLVr5wz''"
proof -
  have "token_of (createId_times (Suc 0) demo [] file0 None)
     = Some (shortHash (''code:'' @ sha256Hash ''foo();'' @ '':1'') 8)"
    by (simp add: demo_defs conform_defs create_defs)
  then show ?thesis
    by (simp add: sha_foo tok1)
qed

end
